theory Spec2Isabelle
  imports Complex_Main
begin

section \<open>The planning result as the frontend reads it\<close>

text \<open>
  The frontend receives the reply of \<^verbatim>\<open>POST /predict-route\<close> as a JSON object and reads a
  fixed set of its fields. A numeric field holds a JSON number or JSON \<^verbatim>\<open>null\<close>, or it is
  missing, and reading a missing field gives \<^verbatim>\<open>undefined\<close>. A text field is an optional
  string. An object or array field (\<^verbatim>\<open>charging_suggestions\<close>, \<^verbatim>\<open>stations\<close>) is \<open>None\<close> when
  it is missing or \<^verbatim>\<open>null\<close>: the code reads these two fields through \<^verbatim>\<open>?.\<close> only, which
  treats both alike.
\<close>

datatype num_field = Missing | JsonNull | Number rat

record station =
  name :: "string option"
  address :: "string option"
  rating :: num_field
  lat :: num_field
  lng :: num_field

record charging_suggestions =
  count :: num_field
  stations :: "station list option"

record route_result =
  result_error :: "string option"
  total_distance_km :: num_field
  estimated_range_km :: num_field
  charging_suggestions :: "charging_suggestions option"
  path :: "(rat \<times> rat) list option"

text \<open>
  JavaScript's truthiness of a numeric field: \<^verbatim>\<open>undefined\<close>, \<^verbatim>\<open>null\<close> and \<open>0\<close> are falsy,
  every other number is truthy.
\<close>

definition truthy_num :: "num_field \<Rightarrow> bool" where
  "truthy_num v = (case v of Missing \<Rightarrow> False | JsonNull \<Rightarrow> False | Number x \<Rightarrow> x \<noteq> 0)"

text \<open>
  The conversion to a number that a comparison applies: \<^verbatim>\<open>undefined\<close> becomes NaN (here
  \<open>None\<close>), \<^verbatim>\<open>null\<close> becomes \<open>0\<close>.
\<close>

definition to_number :: "num_field \<Rightarrow> rat option" where
  "to_number v = (case v of Missing \<Rightarrow> None | JsonNull \<Rightarrow> Some 0 | Number x \<Rightarrow> Some x)"

text \<open>
  \<^verbatim>\<open>a > b\<close> on numeric fields: both operands are converted to numbers, and a comparison
  with NaN is false.
\<close>

definition js_gt :: "num_field \<Rightarrow> num_field \<Rightarrow> bool" where
  "js_gt a b =
     (case to_number a of
        None \<Rightarrow> False
      | Some x \<Rightarrow> (case to_number b of None \<Rightarrow> False | Some y \<Rightarrow> y < x))"

text \<open>\<^verbatim>\<open>v || 0\<close> on a numeric field: \<open>v\<close> when it is truthy, else \<open>0\<close>.\<close>

definition or_zero :: "num_field \<Rightarrow> rat" where
  "or_zero v =
     (case v of Missing \<Rightarrow> 0 | JsonNull \<Rightarrow> 0 | Number x \<Rightarrow> (if x \<noteq> 0 then x else 0))"

section \<open>The state of the \<^verbatim>\<open>App\<close> component\<close>

record ev_model =
  ev_model_id :: int
  model_name :: string
  max_range :: rat

record app_state =
  evModels :: "ev_model list"
  selectedModel :: "ev_model option"
  batteryPercent :: int
  fromLocation :: string
  toLocation :: string
  fromCoords :: "(rat \<times> rat) option"
  toCoords :: "(rat \<times> rat) option"
  routeResult :: "route_result option"
  previewRoute :: "route_result option"
  loading :: bool
  error :: "string option"
  darkMode :: bool
  chargerFilter :: string

text \<open>The thirteen \<^verbatim>\<open>useState\<close> initial values.\<close>

definition initial_state :: app_state where
  "initial_state =
     \<lparr> evModels = [], selectedModel = None, batteryPercent = 80,
       fromLocation = [], toLocation = [], fromCoords = None, toCoords = None,
       routeResult = None, previewRoute = None, loading = False, error = None,
       darkMode = True, chargerFilter = ''all'' \<rparr>"

text \<open>\<^verbatim>\<open>handleClear\<close>: seven setters, applied in the order of the source.\<close>

definition handleClear :: "app_state \<Rightarrow> app_state" where
  "handleClear s =
     s\<lparr> fromLocation := [], toLocation := [], fromCoords := None, toCoords := None,
        routeResult := None, previewRoute := None, error := None \<rparr>"

text \<open>
  The effect on \<^verbatim>\<open>[fromCoords, toCoords]\<close>: a two-point preview path when both
  coordinates are set, else no preview. React runs it after a render in which one of
  the two changed.
\<close>

definition preview_effect :: "app_state \<Rightarrow> app_state" where
  "preview_effect s =
     (case fromCoords s of
        None \<Rightarrow> s\<lparr> previewRoute := None \<rparr>
      | Some f \<Rightarrow>
          (case toCoords s of
             None \<Rightarrow> s\<lparr> previewRoute := None \<rparr>
           | Some t \<Rightarrow>
               s\<lparr> previewRoute :=
                    Some \<lparr> result_error = None, total_distance_km = Missing,
                           estimated_range_km = Missing, charging_suggestions = None,
                           path = Some [f, t] \<rparr> \<rparr>))"


text \<open>
  \<^verbatim>\<open>handleGetRoute\<close> runs in two parts, before and after the \<^verbatim>\<open>await\<close>. The first part
  either refuses (a location or the model is missing) or issues the one call
  \<^verbatim>\<open>getPrediction(fromLocation, toLocation, selectedModel.ev_model_id, batteryPercent)\<close>;
  the second part receives what that call returned.
\<close>

datatype prediction_call = GetPrediction string string int int

definition handleGetRoute_start :: "app_state \<Rightarrow> app_state \<times> prediction_call option" where
  "handleGetRoute_start s =
     (if fromLocation s = [] \<or> toLocation s = [] \<or> selectedModel s = None
      then (s\<lparr> error := Some ''Please fill all fields'' \<rparr>, None)
      else (case selectedModel s of
              None \<Rightarrow> (s\<lparr> error := Some ''Please fill all fields'' \<rparr>, None)
            | Some m \<Rightarrow>
                (s\<lparr> loading := True, error := None \<rparr>,
                 Some (GetPrediction (fromLocation s) (toLocation s) (ev_model_id m)
                         (batteryPercent s)))))"

text \<open>\<^verbatim>\<open>result.error\<close> is truthy when the field holds a non-empty string.\<close>

definition handleGetRoute_finish :: "app_state \<Rightarrow> route_result \<Rightarrow> app_state" where
  "handleGetRoute_finish s result =
     (case result_error result of
        None \<Rightarrow> s\<lparr> loading := False, routeResult := Some result \<rparr>
      | Some e \<Rightarrow>
          (if e \<noteq> [] then s\<lparr> loading := False, error := Some e \<rparr>
           else s\<lparr> loading := False, routeResult := Some result \<rparr>))"

text \<open>
  The effect that loads the models: \<^verbatim>\<open>getEvModels\<close> returned either an object with an
  \<^verbatim>\<open>error\<close> string (one of its two messages, never empty) or the array of models.
\<close>

definition loadModels :: "app_state \<Rightarrow> string + ev_model list \<Rightarrow> app_state" where
  "loadModels s data =
     (case data of
        Inl e \<Rightarrow> s\<lparr> error := Some e \<rparr>
      | Inr ms \<Rightarrow>
          (case ms of
             [] \<Rightarrow> s\<lparr> evModels := ms \<rparr>
           | m # _ \<Rightarrow> s\<lparr> evModels := ms, selectedModel := Some m \<rparr>))"

text \<open>
  The model selector: \<^verbatim>\<open>evModels.find(m => m.ev_model_id === parseInt(e.target.value))\<close>,
  which is \<^verbatim>\<open>undefined\<close> when no model has that id.
\<close>

definition selectModel :: "app_state \<Rightarrow> int \<Rightarrow> app_state" where
  "selectModel s v = s\<lparr> selectedModel := find (\<lambda>m. ev_model_id m = v) (evModels s) \<rparr>"

text \<open>
  The battery control is \<^verbatim>\<open><input type="range" min="10" max="100">\<close>, a slider of whole
  numbers: whatever value is asked of it, it reports its \<^verbatim>\<open>min\<close> for a smaller value, its
  \<^verbatim>\<open>max\<close> for a larger one and the value itself otherwise, and the handler stores
  \<^verbatim>\<open>parseInt\<close> of what it reports.
\<close>

definition battery_control :: "int \<Rightarrow> int" where
  "battery_control asked = max 10 (min 100 asked)"

text \<open>The steps of the component.\<close>

inductive reachable :: "app_state \<Rightarrow> bool" where
  init: "reachable initial_state"
| models_loaded: "reachable s \<Longrightarrow> reachable (loadModels s data)"
| dark_mode: "reachable s \<Longrightarrow> reachable (s\<lparr> darkMode := \<not> darkMode s \<rparr>)"
| charger_filter:
    "reachable s \<Longrightarrow> f = ''all'' \<or> f = ''mega'' \<Longrightarrow> reachable (s\<lparr> chargerFilter := f \<rparr>)"
| model_selected: "reachable s \<Longrightarrow> reachable (selectModel s v)"
| battery_moved:
    "reachable s \<Longrightarrow> reachable (s\<lparr> batteryPercent := battery_control asked \<rparr>)"
| from_typed: "reachable s \<Longrightarrow> reachable (s\<lparr> fromLocation := txt \<rparr>)"
| to_typed: "reachable s \<Longrightarrow> reachable (s\<lparr> toLocation := txt \<rparr>)"
| from_selected: "reachable s \<Longrightarrow> reachable (s\<lparr> fromCoords := Some c \<rparr>)"
| to_selected: "reachable s \<Longrightarrow> reachable (s\<lparr> toCoords := Some c \<rparr>)"
| preview: "reachable s \<Longrightarrow> reachable (preview_effect s)"
| route_asked: "reachable s \<Longrightarrow> reachable (fst (handleGetRoute_start s))"
| route_answered: "reachable s \<Longrightarrow> reachable (handleGetRoute_finish s result)"
| cleared: "reachable s \<Longrightarrow> reachable (handleClear s)"
| summary_closed: "reachable s \<Longrightarrow> reachable (s\<lparr> routeResult := None \<rparr>)"

section \<open>The trip summary\<close>

text \<open>
  What the right sidebar shows. The sidebar exists only while \<open>routeResult\<close> is set. The
  rating cell is \<^verbatim>\<open>{station.rating && (...)}\<close>: nothing for a missing or \<^verbatim>\<open>null\<close> rating,
  the bare number for a rating of \<open>0\<close>, the starred line otherwise.
\<close>

datatype rating_cell = NoRating | BareNumber rat | StarRating rat

record station_row =
  row_key :: nat
  row_name :: "string option"
  row_address :: "string option"
  row_rating :: rating_cell

record trip_summary =
  shown_total_distance :: num_field
  shown_estimated_range :: num_field
  shown_charger_count :: rat
  warning_shown :: bool
  station_list :: "station_row list option"

definition rating_cell_of :: "num_field \<Rightarrow> rating_cell" where
  "rating_cell_of v =
     (case v of Missing \<Rightarrow> NoRating | JsonNull \<Rightarrow> NoRating
      | Number x \<Rightarrow> (if x \<noteq> 0 then StarRating x else BareNumber x))"

definition station_row_of :: "nat \<Rightarrow> station \<Rightarrow> station_row" where
  "station_row_of idx st =
     \<lparr> row_key = idx, row_name = name st, row_address = address st,
       row_rating = rating_cell_of (rating st) \<rparr>"

text \<open>\<^verbatim>\<open>.map((station, idx) => ...)\<close>, the index counting from \<open>idx\<close>.\<close>

fun map_rows :: "nat \<Rightarrow> station list \<Rightarrow> station_row list" where
  "map_rows idx [] = []"
| "map_rows idx (st # sts) = station_row_of idx st # map_rows (Suc idx) sts"

text \<open>\<^verbatim>\<open>routeResult.charging_suggestions?.count\<close> and \<^verbatim>\<open>...?.stations?.length\<close>.\<close>

definition suggestions_count :: "route_result \<Rightarrow> num_field" where
  "suggestions_count r =
     (case charging_suggestions r of None \<Rightarrow> Missing | Some cs \<Rightarrow> count cs)"

definition stations_length :: "route_result \<Rightarrow> num_field" where
  "stations_length r =
     (case charging_suggestions r of
        None \<Rightarrow> Missing
      | Some cs \<Rightarrow>
          (case stations cs of None \<Rightarrow> Missing | Some sts \<Rightarrow> Number (of_nat (length sts))))"

text \<open>
  The list block: under the guard \<^verbatim>\<open>stations?.length > 0\<close> the rows of
  \<^verbatim>\<open>stations.slice(0, 10)\<close>. The guard holds only when both objects are present, so
  the two \<open>None\<close> branches below it are never taken.
\<close>

definition station_list_block :: "route_result \<Rightarrow> station_row list option" where
  "station_list_block r =
     (if js_gt (stations_length r) (Number 0)
      then (case charging_suggestions r of
              None \<Rightarrow> None
            | Some cs \<Rightarrow>
                (case stations cs of
                   None \<Rightarrow> None
                 | Some sts \<Rightarrow> Some (map_rows 0 (take 10 sts))))
      else None)"

definition summary_of :: "route_result \<Rightarrow> trip_summary" where
  "summary_of r =
     \<lparr> shown_total_distance = total_distance_km r,
       shown_estimated_range = estimated_range_km r,
       shown_charger_count = or_zero (suggestions_count r),
       warning_shown = js_gt (total_distance_km r) (estimated_range_km r),
       station_list = station_list_block r \<rparr>"

definition render_trip_summary :: "app_state \<Rightarrow> trip_summary option" where
  "render_trip_summary s = map_option summary_of (routeResult s)"

text \<open>The rows on screen: none when the list block is not rendered.\<close>

definition rendered_rows :: "route_result \<Rightarrow> station_row list" where
  "rendered_rows r = (case station_list (summary_of r) of None \<Rightarrow> [] | Some rows \<Rightarrow> rows)"

text \<open>
  The Feasibility Evaluator as the specification words it: \<open>DIRECT\<close> when the total
  distance is at most the estimated range, \<open>REQUIRES_CHARGING\<close> otherwise.
\<close>

datatype verdict = DIRECT | REQUIRES_CHARGING | INFEASIBLE

definition classify :: "rat \<Rightarrow> rat \<Rightarrow> verdict" where
  "classify totalDistanceKm estimatedRangeKm =
     (if totalDistanceKm \<le> estimatedRangeKm then DIRECT else REQUIRES_CHARGING)"

section \<open>The station markers of the map\<close>

record marker =
  position :: "rat \<times> rat"
  title :: "string option"

text \<open>\<^verbatim>\<open>result?.charging_suggestions?.stations || []\<close>; an array is truthy, also when empty.\<close>

definition result_stations :: "route_result option \<Rightarrow> station list" where
  "result_stations result =
     (case result of
        None \<Rightarrow> []
      | Some r \<Rightarrow>
          (case charging_suggestions r of
             None \<Rightarrow> []
           | Some cs \<Rightarrow> (case stations cs of None \<Rightarrow> [] | Some sts \<Rightarrow> sts)))"

text \<open>
  One round of the \<^verbatim>\<open>forEach\<close> body: it returns early when \<^verbatim>\<open>!station.lat || !station.lng\<close>,
  and builds the marker at \<^verbatim>\<open>{ lat: station.lat, lng: station.lng }\<close> otherwise. Past the
  guard both fields hold a number, so the last branch is never taken.
\<close>

definition station_marker :: "station \<Rightarrow> marker option" where
  "station_marker st =
     (if \<not> truthy_num (lat st) \<or> \<not> truthy_num (lng st) then None
      else (case (lat st, lng st) of
              (Number a, Number b) \<Rightarrow> Some \<lparr> position = (a, b), title = name st \<rparr>
            | _ \<Rightarrow> None))"

text \<open>The loop; \<open>ms\<close> is \<^verbatim>\<open>markersRef.current\<close>, to which a new marker is pushed.\<close>

fun forEach_station :: "station list \<Rightarrow> marker list \<Rightarrow> marker list" where
  "forEach_station [] ms = ms"
| "forEach_station (st # sts) ms =
     forEach_station sts (case station_marker st of None \<Rightarrow> ms | Some m \<Rightarrow> ms @ [m])"

text \<open>
  The effect on \<^verbatim>\<open>[result]\<close>: nothing changes while there is no result or the map is not
  ready; otherwise the old markers are dropped and the stations' markers are built.
\<close>

definition update_markers :: "bool \<Rightarrow> route_result option \<Rightarrow> marker list \<Rightarrow> marker list" where
  "update_markers map_ready result old =
     (if result = None \<or> \<not> map_ready then old
      else forEach_station (result_stations result) [])"

section \<open>The API helper\<close>

text \<open>
  The helper handles the parsed reply as an arbitrary JavaScript value; \<open>JUndefined\<close> is
  what reading an absent property gives. Writing to the console is not modelled.
\<close>

datatype jsval =
    JUndefined
  | JNull
  | JBool bool
  | JNum rat
  | JStr string
  | JArr "jsval list"
  | JObj "(string \<times> jsval) list"

fun truthy :: "jsval \<Rightarrow> bool" where
  "truthy JUndefined = False"
| "truthy JNull = False"
| "truthy (JBool b) = b"
| "truthy (JNum n) = (n \<noteq> 0)"
| "truthy (JStr s) = (s \<noteq> [])"
| "truthy (JArr _) = True"
| "truthy (JObj _) = True"

datatype js_exn = NetworkError | BodyError | SyntaxError | TypeError

text \<open>
  Reading the property \<open>k\<close>, for a key that no prototype defines (\<^verbatim>\<open>models\<close>, \<^verbatim>\<open>error\<close>): a
  \<^verbatim>\<open>TypeError\<close> on \<^verbatim>\<open>null\<close> and \<^verbatim>\<open>undefined\<close>, the member of an object (the last one when
  the JSON text repeats the key), \<^verbatim>\<open>undefined\<close> otherwise.
\<close>

fun get_field :: "jsval \<Rightarrow> string \<Rightarrow> js_exn + jsval" where
  "get_field JUndefined k = Inl TypeError"
| "get_field JNull k = Inl TypeError"
| "get_field (JObj members) k =
     Inr (case map_of (rev members) k of None \<Rightarrow> JUndefined | Some v \<Rightarrow> v)"
| "get_field _ k = Inr JUndefined"

text \<open>
  A response: its status, and what \<^verbatim>\<open>res.text()\<close> and \<^verbatim>\<open>res.json()\<close> settle to (a rejection
  or a value). \<^verbatim>\<open>res.ok\<close> is true for a status from 200 to 299.
\<close>

record response =
  status :: nat
  text_read :: "js_exn + string"
  json_read :: "js_exn + jsval"

definition ok :: "response \<Rightarrow> bool" where
  "ok res = (200 \<le> status res \<and> status res \<le> 299)"

record http_request =
  url :: string
  http_method :: string
  headers :: "(string \<times> string) list"
  body :: "jsval option"

text \<open>\<^verbatim>\<open>fetch\<close>: the promise is rejected, or fulfilled with a response.\<close>

type_synonym fetch = "http_request \<Rightarrow> js_exn + response"

definition BASE :: string where
  "BASE = ''http://127.0.0.1:8000''"

text \<open>A number in a template literal: the decimal digits of a status code.\<close>

fun decimal :: "nat \<Rightarrow> string" where
  "decimal n = (if n < 10 then [''0123456789'' ! n]
                else decimal (n div 10) @ [''0123456789'' ! (n mod 10)])"

definition error_object :: "string \<Rightarrow> jsval" where
  "error_object msg = JObj [(''error'', JStr msg)]"

definition ev_models_request :: http_request where
  "ev_models_request =
     \<lparr> url = BASE @ ''/ev-models'', http_method = ''GET'', headers = [], body = None \<rparr>"

text \<open>The body of the \<^verbatim>\<open>try\<close> block of \<^verbatim>\<open>getEvModels\<close>; \<open>Inl\<close> is an exception thrown in it.\<close>

definition getEvModels_try :: "fetch \<Rightarrow> js_exn + jsval" where
  "getEvModels_try fetch =
     (case fetch ev_models_request of
        Inl e \<Rightarrow> Inl e
      | Inr res \<Rightarrow>
          (if \<not> ok res
           then (case text_read res of
                   Inl e \<Rightarrow> Inl e
                 | Inr text \<Rightarrow>
                     Inr (error_object (''Failed to load EV models: '' @ decimal (status res))))
           else (case json_read res of
                   Inl e \<Rightarrow> Inl e
                 | Inr data \<Rightarrow>
                     (case get_field data ''models'' of
                        Inl e \<Rightarrow> Inl e
                      | Inr models \<Rightarrow> Inr (if truthy models then models else JArr [])))))"

text \<open>The whole function: the \<^verbatim>\<open>catch\<close> block turns every exception into an error object.\<close>

definition getEvModels :: "fetch \<Rightarrow> js_exn + jsval" where
  "getEvModels fetch =
     (case getEvModels_try fetch of
        Inl err \<Rightarrow> Inr (error_object ''Failed to fetch EV models'')
      | Inr v \<Rightarrow> Inr v)"

text \<open>
  The request of \<^verbatim>\<open>getPrediction(from_location, to_location, ev_model_id, battery_percent)\<close>;
  its body is the payload object that the source passes to \<^verbatim>\<open>JSON.stringify\<close>.
\<close>

definition prediction_request :: "string \<Rightarrow> string \<Rightarrow> int \<Rightarrow> int \<Rightarrow> http_request" where
  "prediction_request from_location to_location model_id battery_percent =
     \<lparr> url = BASE @ ''/predict-route'', http_method = ''POST'',
       headers = [(''Content-Type'', ''application/json'')],
       body = Some (JObj [(''from_location'', JStr from_location),
                          (''to_location'', JStr to_location),
                          (''ev_model_id'', JNum (of_int model_id)),
                          (''battery_percent'', JNum (of_int battery_percent))]) \<rparr>"

definition getPrediction_try :: "fetch \<Rightarrow> string \<Rightarrow> string \<Rightarrow> int \<Rightarrow> int \<Rightarrow> js_exn + jsval" where
  "getPrediction_try fetch from_location to_location model_id battery_percent =
     (case fetch (prediction_request from_location to_location model_id battery_percent) of
        Inl e \<Rightarrow> Inl e
      | Inr res \<Rightarrow>
          (if \<not> ok res
           then (case text_read res of
                   Inl e \<Rightarrow> Inl e
                 | Inr text \<Rightarrow>
                     Inr (error_object (''Prediction API failed: '' @ decimal (status res))))
           else (case json_read res of Inl e \<Rightarrow> Inl e | Inr data \<Rightarrow> Inr data)))"

definition getPrediction :: "fetch \<Rightarrow> string \<Rightarrow> string \<Rightarrow> int \<Rightarrow> int \<Rightarrow> js_exn + jsval" where
  "getPrediction fetch from_location to_location model_id battery_percent =
     (case getPrediction_try fetch from_location to_location model_id battery_percent of
        Inl err \<Rightarrow> Inr (error_object ''Failed to fetch prediction'')
      | Inr v \<Rightarrow> Inr v)"

text \<open>An object whose \<^verbatim>\<open>error\<close> property is a non-empty string.\<close>

definition carries_error :: "jsval \<Rightarrow> bool" where
  "carries_error v =
     (case get_field v ''error'' of
        Inr (JStr msg) \<Rightarrow> msg \<noteq> []
      | _ \<Rightarrow> False)"

section \<open>The Range Estimator\<close>

text \<open>
  Modelled from the spec: the EV model of the data model (section 3). The backend that
  estimates the range is not among the sources.
\<close>

record EVModel =
  modelId :: int
  displayName :: string
  maxRange :: rat
  batteryCapacity :: rat
  consumptionRate :: rat

datatype planning_error = InvalidInput | UpstreamUnavailable | Unreachable | SearchLimitExceeded

text \<open>
  Modelled from the spec: \<^verbatim>\<open>estimateRange(evModel, batteryPercent)\<close> (component 4.1). It
  fails with \<open>InvalidInput\<close> when the model is absent or the battery percent is outside
  0 to 100, and returns \<^verbatim>\<open>maxRange * batteryPercent / 100\<close>, clamped to at least \<open>0\<close>,
  otherwise. The battery percent is an integer.
\<close>

definition estimateRange :: "EVModel option \<Rightarrow> int \<Rightarrow> planning_error + rat" where
  "estimateRange evModel percent =
     (case evModel of
        None \<Rightarrow> Inl InvalidInput
      | Some m \<Rightarrow>
          (if percent < 0 \<or> 100 < percent then Inl InvalidInput
           else Inr (max 0 (maxRange m * of_int percent / 100))))"

section \<open>The Stop Selector\<close>

text \<open>
  Modelled from the spec: the Stop Selector / A* planner (component 4.4). The backend that
  selects charging stops is not among the sources; the definitions below follow the
  words of the specification. A node is the origin, the destination or one of the
  (deduplicated) candidates, named by its index in the candidate list.
\<close>

datatype node = Origin | Destination | Candidate nat

text \<open>
  Modelled from the spec: the input of one search. The coordinates enter only through
  two functions: \<open>distance\<close>, the weight of the hop between two nodes, and
  \<open>straight_line\<close>, the straight-line distance of a node to the destination (the
  heuristic \<open>h\<close>). \<open>ratings\<close> lists the candidates by their optional rating.
  \<open>initial_range\<close> is the estimated range at the start, \<open>full_range\<close> the range after
  a charging stop.
\<close>

record planning_graph =
  ratings :: "rat option list"
  distance :: "node \<Rightarrow> node \<Rightarrow> rat"
  straight_line :: "node \<Rightarrow> rat"
  initial_range :: rat
  full_range :: rat

definition candidates :: "planning_graph \<Rightarrow> node list" where
  "candidates p = map Candidate [0..<length (ratings p)]"

definition all_nodes :: "planning_graph \<Rightarrow> node list" where
  "all_nodes p = Origin # Destination # candidates p"

text \<open>
  Modelled from the spec: the budget of a node is the initial range at the origin and
  the full range at every other node.
\<close>

definition budget :: "planning_graph \<Rightarrow> node \<Rightarrow> rat" where
  "budget p n = (if n = Origin then initial_range p else full_range p)"

definition node_rating :: "planning_graph \<Rightarrow> node \<Rightarrow> rat option" where
  "node_rating p n =
     (case n of Candidate i \<Rightarrow> (if i < length (ratings p) then ratings p ! i else None)
      | _ \<Rightarrow> None)"

text \<open>
  Modelled from the spec: an entry of the frontier holds the node, the accumulated
  distance \<open>g\<close> and the parent pointers: \<open>parents\<close> is the chain of predecessors, the
  nearest first, back to the origin.
\<close>

record frontier_entry =
  entry_node :: node
  g_score :: rat
  parents :: "node list"

definition f_score :: "planning_graph \<Rightarrow> frontier_entry \<Rightarrow> rat" where
  "f_score p e = g_score e + straight_line p (entry_node e)"

text \<open>
  Modelled from the spec: the order of the priority queue. Smaller \<open>f = g + h\<close> first;
  on equal \<open>f\<close> the smaller \<open>h\<close>; then the higher rating (a candidate without a rating
  ranks below every rated one); entries that still tie leave in insertion order.
\<close>

definition higher_rated :: "rat option \<Rightarrow> rat option \<Rightarrow> bool" where
  "higher_rated a b =
     (case a of None \<Rightarrow> False
      | Some x \<Rightarrow> (case b of None \<Rightarrow> True | Some y \<Rightarrow> y < x))"

definition before :: "planning_graph \<Rightarrow> frontier_entry \<Rightarrow> frontier_entry \<Rightarrow> bool" where
  "before p a b =
     (f_score p a < f_score p b
      \<or> (f_score p a = f_score p b
          \<and> (straight_line p (entry_node a) < straight_line p (entry_node b)
              \<or> (straight_line p (entry_node a) = straight_line p (entry_node b)
                  \<and> higher_rated (node_rating p (entry_node a)) (node_rating p (entry_node b))))))"

text \<open>
  Modelled from the spec: the frontier is the list of entries in insertion order;
  \<open>best_entry\<close> keeps the earliest entry that no other entry precedes.
\<close>

fun best_entry :: "planning_graph \<Rightarrow> frontier_entry \<Rightarrow> frontier_entry list \<Rightarrow> frontier_entry" where
  "best_entry p b [] = b"
| "best_entry p b (e # es) = best_entry p (if before p e b then e else b) es"

definition pop_best ::
  "planning_graph \<Rightarrow> frontier_entry list \<Rightarrow> (frontier_entry \<times> frontier_entry list) option" where
  "pop_best p frontier =
     (case frontier of
        [] \<Rightarrow> None
      | e # es \<Rightarrow> Some (best_entry p e es, remove1 (best_entry p e es) frontier))"

text \<open>
  Modelled from the spec: expanding an entry considers the hops to the destination and
  to every still unvisited candidate whose distance is within the budget of the node.
\<close>

definition successors :: "planning_graph \<Rightarrow> frontier_entry \<Rightarrow> node list \<Rightarrow> frontier_entry list" where
  "successors p e unvisited =
     map (\<lambda>m. \<lparr> entry_node = m, g_score = g_score e + distance p (entry_node e) m,
                parents = entry_node e # parents e \<rparr>)
       (filter (\<lambda>m. distance p (entry_node e) m \<le> budget p (entry_node e)) unvisited)"

lemma best_entry_in: "best_entry p b es \<in> set (b # es)"
  by (induction es arbitrary: b) auto

lemma pop_best_Some:
  assumes "pop_best p frontier = Some (e, rest)"
  shows "e \<in> set frontier" and "rest = remove1 e frontier"
proof -
  from assms obtain a as where fr: "frontier = a # as"
    by (cases frontier) (simp_all add: pop_best_def)
  from assms fr have e: "e = best_entry p a as" and r: "rest = remove1 (best_entry p a as) (a # as)"
    by (auto simp: pop_best_def simp del: remove1.simps)
  from best_entry_in [of p a as] e fr show "e \<in> set frontier" by simp
  from r e fr show "rest = remove1 e frontier" by simp
qed

lemma pop_best_shorter: "pop_best p frontier = Some (e, rest) \<Longrightarrow> length rest < length frontier"
proof -
  assume a: "pop_best p frontier = Some (e, rest)"
  from pop_best_Some [OF a] have "length rest = length frontier - 1" and "frontier \<noteq> []"
    by (auto simp: length_remove1)
  then show ?thesis by (cases frontier) simp_all
qed

lemma removeAll_shorter: "x \<in> set xs \<Longrightarrow> length (removeAll x xs) < length xs"
  by (induction xs) (auto simp: less_Suc_eq_le length_removeAll_less_eq)

text \<open>
  Modelled from the spec: the search. It succeeds when the destination is popped and
  fails when the frontier is exhausted. An entry of a node that was visited before is
  dropped.
\<close>

function search ::
  "planning_graph \<Rightarrow> node list \<Rightarrow> frontier_entry list \<Rightarrow> frontier_entry option" where
  "search p unvisited frontier =
     (case pop_best p frontier of
        None \<Rightarrow> None
      | Some (e, rest) \<Rightarrow>
          (if entry_node e = Destination then Some e
           else if entry_node e \<notin> set unvisited then search p unvisited rest
           else search p (removeAll (entry_node e) unvisited)
                  (rest @ successors p e (removeAll (entry_node e) unvisited))))"
  by pat_completeness auto
termination
proof (relation "measures [\<lambda>(p, unvisited, frontier). length unvisited,
                           \<lambda>(p, unvisited, frontier). length frontier]")
  show "wf (measures [\<lambda>(p, unvisited, frontier). length unvisited,
                      \<lambda>(p, unvisited, frontier). length (frontier :: frontier_entry list)])"
    by simp
next
  fix p :: planning_graph and unvisited :: "node list" and frontier x2 e rest
  assume "pop_best p frontier = Some x2" and "(e, rest) = x2"
  then have "pop_best p frontier = Some (e, rest)" by simp
  from pop_best_shorter [OF this]
  show "((p, unvisited, rest), p, unvisited, frontier)
        \<in> measures [\<lambda>(p, unvisited, frontier). length unvisited,
                     \<lambda>(p, unvisited, frontier). length frontier]"
    by simp
next
  fix p :: planning_graph and unvisited :: "node list" and frontier x2 rest
    and e :: frontier_entry
  assume "\<not> entry_node e \<notin> set unvisited"
  then have "entry_node e \<in> set unvisited" by simp
  from removeAll_shorter [OF this]
  show "((p, removeAll (entry_node e) unvisited,
          rest @ successors p e (removeAll (entry_node e) unvisited)), p, unvisited, frontier)
        \<in> measures [\<lambda>(p, unvisited, frontier). length unvisited,
                     \<lambda>(p, unvisited, frontier). length frontier]"
    by simp
qed

text \<open>
  Modelled from the spec: the stop sequence is the path read from the parent pointers,
  without origin and destination.
\<close>

definition stops_of :: "frontier_entry \<Rightarrow> node list" where
  "stops_of e = filter (\<lambda>n. n \<noteq> Origin \<and> n \<noteq> Destination) (rev (entry_node e # parents e))"

text \<open>
  Modelled from the spec: the Stop Selector. With no candidate and a direct distance
  beyond the range it reports infeasibility (\<open>None\<close>) without searching.
\<close>

definition select_stops :: "planning_graph \<Rightarrow> node list option" where
  "select_stops p =
     (if ratings p = [] \<and> initial_range p < distance p Origin Destination then None
      else map_option stops_of
             (search p (all_nodes p) [\<lparr> entry_node = Origin, g_score = 0, parents = [] \<rparr>]))"

text \<open>The total distance of a path, and whether each hop is within the budget at its start.\<close>

fun total_km :: "planning_graph \<Rightarrow> node list \<Rightarrow> rat" where
  "total_km p [] = 0"
| "total_km p [a] = 0"
| "total_km p (a # b # w) = distance p a b + total_km p (b # w)"

fun within_budget :: "planning_graph \<Rightarrow> node list \<Rightarrow> bool" where
  "within_budget p [] = True"
| "within_budget p [a] = True"
| "within_budget p (a # b # w) = (distance p a b \<le> budget p a \<and> within_budget p (b # w))"

text \<open>A route: a path over the nodes of the problem that starts at the origin, every hop within budget.\<close>

definition route :: "planning_graph \<Rightarrow> node list \<Rightarrow> bool" where
  "route p w = (w \<noteq> [] \<and> hd w = Origin \<and> set w \<subseteq> set (all_nodes p) \<and> within_budget p w)"

text \<open>
  What the specification relies on for the heuristic, its consistency: the straight-line
  distance of the destination to itself is \<open>0\<close>, and along every hop within budget the
  straight-line distance of the start never exceeds the length of the hop plus the
  straight-line distance of the end.
\<close>

definition consistent :: "planning_graph \<Rightarrow> bool" where
  "consistent p =
     (straight_line p Destination = 0
      \<and> (\<forall>a \<in> set (all_nodes p). \<forall>b \<in> set (all_nodes p).
            distance p a b \<le> budget p a
            \<longrightarrow> straight_line p a \<le> distance p a b + straight_line p b))"

text \<open>The path of an entry, from the origin to its node.\<close>

definition trail :: "frontier_entry \<Rightarrow> node list" where
  "trail e = rev (entry_node e # parents e)"

text \<open>
  The invariant of the search, over the unvisited nodes \<open>U\<close> and the frontier \<open>F\<close>: every
  entry is a route of length \<open>g\<close>; the origin, while unvisited, has an entry; and every
  hop from a visited node to an unvisited one has an entry that is no longer than any
  route through that hop.
\<close>

definition search_inv :: "planning_graph \<Rightarrow> node list \<Rightarrow> frontier_entry list \<Rightarrow> bool" where
  "search_inv p U F =
     (set U \<subseteq> set (all_nodes p) \<and> Destination \<in> set U
      \<and> (\<forall>e \<in> set F. route p (trail e) \<and> g_score e = total_km p (trail e))
      \<and> (Origin \<in> set U \<longrightarrow> (\<exists>e \<in> set F. entry_node e = Origin \<and> g_score e \<le> 0))
      \<and> (\<forall>Q m. route p Q \<and> last Q \<notin> set U \<and> m \<in> set U
               \<and> distance p (last Q) m \<le> budget p (last Q)
             \<longrightarrow> (\<exists>e \<in> set F. entry_node e = m \<and> g_score e \<le> total_km p Q + distance p (last Q) m)))"

text \<open>The parent pointers of an entry lead through stops only, back to the origin.\<close>

definition stop_chain :: "frontier_entry \<Rightarrow> bool" where
  "stop_chain e =
     (if entry_node e = Origin then parents e = []
      else (\<exists>cs. parents e = cs @ [Origin] \<and> (\<forall>x \<in> set cs. x \<noteq> Origin \<and> x \<noteq> Destination)))"

definition trail_inv :: "node list \<Rightarrow> frontier_entry list \<Rightarrow> bool" where
  "trail_inv U F =
     ((Origin \<in> set U \<longrightarrow> (\<forall>e \<in> set F. entry_node e = Origin))
      \<and> (\<forall>e \<in> set F. stop_chain e))"

text \<open>Every entry of the frontier is a route; this needs nothing of the heuristic.\<close>

definition entries_inv :: "planning_graph \<Rightarrow> node list \<Rightarrow> frontier_entry list \<Rightarrow> bool" where
  "entries_inv p U F = (set U \<subseteq> set (all_nodes p) \<and> (\<forall>e \<in> set F. route p (trail e)))"

section \<open>The planning entry point\<close>

text \<open>
  Modelled from the spec: the planning request, the base route, the charging candidate
  and the planning result of the data model (section 3). The backend that plans a trip
  is not among the sources. A request may lack a coordinate and a candidate may lack
  its coordinate.
\<close>

type_synonym coord = "rat \<times> rat"

record PlanningRequest =
  origin :: "coord option"
  destination :: "coord option"
  evModelId :: int
  batteryPct :: int

record BaseRoute =
  waypoints :: "coord list"
  distanceKm :: rat
  durationMin :: "rat option"

record ChargingCandidate =
  coordinate :: "coord option"
  candidateName :: string
  candidateAddress :: string
  candidateRating :: "rat option"
  distanceFromRoute :: "rat option"

record PlanningResult =
  totalDistance :: rat
  estimatedRange :: rat
  feasibility :: verdict
  selectedStops :: "ChargingCandidate list"
  candidateCount :: nat

text \<open>
  Modelled from the spec: the external collaborators (section 6) and what the core is
  given: the EV model catalog, the directions provider, the search for charging
  candidates near a corridor, the distance of a hop between two coordinates, the
  straight-line distance between two coordinates, and the search radius. A collaborator
  answers with a value or fails with an error. Each use of the directions provider or
  of the candidate search is one external call.
\<close>

record collaborators =
  catalog :: "EVModel list"
  directions :: "coord \<Rightarrow> coord \<Rightarrow> planning_error + BaseRoute"
  findCandidates :: "coord list \<Rightarrow> rat \<Rightarrow> planning_error + ChargingCandidate list"
  hopKm :: "coord \<Rightarrow> coord \<Rightarrow> rat"
  straightKm :: "coord \<Rightarrow> coord \<Rightarrow> rat"
  radiusKm :: rat

datatype external_call = DirectionsCall coord coord | NearbyCall "coord list" rat

text \<open>
  Modelled from the spec: a candidate without a coordinate is invalid and discarded
  (section 3); the others are kept with their coordinate.
\<close>

definition located :: "ChargingCandidate list \<Rightarrow> (coord \<times> ChargingCandidate) list" where
  "located found = List.map_filter (\<lambda>c. map_option (\<lambda>xy. (xy, c)) (coordinate c)) found"

text \<open>
  Modelled from the spec: candidates within 50 m (a twentieth of a kilometre) of each
  other are merged, keeping the higher-rated one, or the one seen first when the ratings
  tie or a rating is absent (component 4.3). \<open>replaces\<close> says when a later candidate
  takes the place of an earlier one.
\<close>

definition replaces :: "ChargingCandidate \<Rightarrow> ChargingCandidate \<Rightarrow> bool" where
  "replaces later earlier =
     (case candidateRating later of
        None \<Rightarrow> False
      | Some x \<Rightarrow> (case candidateRating earlier of None \<Rightarrow> False | Some y \<Rightarrow> y < x))"

fun merge_candidate ::
  "(coord \<Rightarrow> coord \<Rightarrow> rat) \<Rightarrow> coord \<times> ChargingCandidate \<Rightarrow> (coord \<times> ChargingCandidate) list
   \<Rightarrow> (coord \<times> ChargingCandidate) list" where
  "merge_candidate km c [] = [c]"
| "merge_candidate km c (k # kept) =
     (if km (fst k) (fst c) \<le> 1 / 20
      then (if replaces (snd c) (snd k) then c # kept else k # kept)
      else k # merge_candidate km c kept)"

definition deduplicate ::
  "(coord \<Rightarrow> coord \<Rightarrow> rat) \<Rightarrow> (coord \<times> ChargingCandidate) list
   \<Rightarrow> (coord \<times> ChargingCandidate) list" where
  "deduplicate km cs = foldl (\<lambda>kept c. merge_candidate km c kept) [] cs"

text \<open>
  Modelled from the spec: the graph that the Stop Selector searches (component 4.4).
  Candidate \<open>i\<close> is the \<open>i\<close>-th deduplicated candidate. The hop from the origin to the
  destination is the base route, whose distance the directions provider gave; this is
  the distance that the Feasibility Evaluator compared, so that the planner is only
  asked when the direct hop is beyond the range. Every other hop is measured between
  the coordinates of its ends.
\<close>

definition node_coord :: "coord \<Rightarrow> coord \<Rightarrow> (coord \<times> ChargingCandidate) list \<Rightarrow> node \<Rightarrow> coord" where
  "node_coord src dst cs n =
     (case n of
        Origin \<Rightarrow> src
      | Destination \<Rightarrow> dst
      | Candidate i \<Rightarrow> (if i < length cs then fst (cs ! i) else dst))"

definition planner_graph ::
  "collaborators \<Rightarrow> coord \<Rightarrow> coord \<Rightarrow> BaseRoute \<Rightarrow> rat \<Rightarrow> rat
   \<Rightarrow> (coord \<times> ChargingCandidate) list \<Rightarrow> planning_graph" where
  "planner_graph env src dst base initial full cs =
     \<lparr> ratings = map (\<lambda>c. candidateRating (snd c)) cs,
       distance =
         (\<lambda>a b. if a = Origin \<and> b = Destination then distanceKm base
                 else hopKm env (node_coord src dst cs a) (node_coord src dst cs b)),
       straight_line = (\<lambda>n. straightKm env (node_coord src dst cs n) dst),
       initial_range = initial, full_range = full \<rparr>"

text \<open>Modelled from the spec: the candidates that a stop sequence of the search names.\<close>

definition stop_candidates ::
  "(coord \<times> ChargingCandidate) list \<Rightarrow> node list \<Rightarrow> ChargingCandidate list" where
  "stop_candidates cs stops =
     List.map_filter
       (\<lambda>n. case n of
               Candidate i \<Rightarrow> (if i < length cs then Some (snd (cs ! i)) else None)
             | _ \<Rightarrow> None)
       stops"

text \<open>
  Modelled from the spec: the Trip Assembler (component 4.5) combines the base route, the
  estimated range, the verdict, the stop sequence and the candidate count.
\<close>

definition assemble ::
  "BaseRoute \<Rightarrow> rat \<Rightarrow> verdict \<Rightarrow> ChargingCandidate list \<Rightarrow> nat \<Rightarrow> PlanningResult" where
  "assemble base estimated v stops n =
     \<lparr> totalDistance = distanceKm base, estimatedRange = estimated, feasibility = v,
       selectedStops = stops, candidateCount = n \<rparr>"

text \<open>
  Modelled from the spec: the part of a plan that runs when charging is required
  (section 2, steps 5 to 7): the candidates near the route are fetched, deduplicated and
  searched. A failure of the collaborator is returned. When the search finds no chain
  the verdict is \<open>INFEASIBLE\<close> with an empty stop sequence, otherwise
  \<open>REQUIRES_CHARGING\<close> with the stops found. The result comes with the external calls
  made.
\<close>

definition plan_stops ::
  "collaborators \<Rightarrow> coord \<Rightarrow> coord \<Rightarrow> BaseRoute \<Rightarrow> rat \<Rightarrow> rat
   \<Rightarrow> (planning_error + PlanningResult) \<times> external_call list" where
  "plan_stops env src dst base initial full =
     (case findCandidates env (waypoints base) (radiusKm env) of
        Inl e \<Rightarrow> (Inl e, [NearbyCall (waypoints base) (radiusKm env)])
      | Inr found \<Rightarrow>
          (case select_stops
                  (planner_graph env src dst base initial full
                     (deduplicate (straightKm env) (located found))) of
             None \<Rightarrow>
               (Inr (assemble base initial INFEASIBLE []
                       (length (deduplicate (straightKm env) (located found)))),
                [NearbyCall (waypoints base) (radiusKm env)])
           | Some stops \<Rightarrow>
               (Inr (assemble base initial REQUIRES_CHARGING
                       (stop_candidates (deduplicate (straightKm env) (located found)) stops)
                       (length (deduplicate (straightKm env) (located found)))),
                [NearbyCall (waypoints base) (radiusKm env)])))"

text \<open>
  Modelled from the spec: the planning entry point (sections 2 and 6). The vehicle
  parameters are resolved first: \<open>estimateRange\<close> rejects an absent model and a battery
  percent outside 0 to 100 with \<open>InvalidInput\<close>; a missing coordinate is \<open>InvalidInput\<close>
  too. Only then is the base route fetched and classified. A trip within range is
  \<open>DIRECT\<close> with an empty stop sequence, and the planner is not invoked. The result
  comes with the external calls made, in order.
\<close>

definition plan ::
  "collaborators \<Rightarrow> PlanningRequest \<Rightarrow> (planning_error + PlanningResult) \<times> external_call list" where
  "plan env req =
     (case estimateRange (find (\<lambda>m. modelId m = evModelId req) (catalog env)) (batteryPct req) of
        Inl e \<Rightarrow> (Inl e, [])
      | Inr initial \<Rightarrow>
          (case estimateRange (find (\<lambda>m. modelId m = evModelId req) (catalog env)) 100 of
             Inl e \<Rightarrow> (Inl e, [])
           | Inr full \<Rightarrow>
               (case origin req of
                  None \<Rightarrow> (Inl InvalidInput, [])
                | Some src \<Rightarrow>
                    (case destination req of
                       None \<Rightarrow> (Inl InvalidInput, [])
                     | Some dst \<Rightarrow>
                         (case directions env src dst of
                            Inl e \<Rightarrow> (Inl e, [DirectionsCall src dst])
                          | Inr base \<Rightarrow>
                              (if classify (distanceKm base) initial = DIRECT
                               then (Inr (assemble base initial DIRECT [] 0),
                                     [DirectionsCall src dst])
                               else (fst (plan_stops env src dst base initial full),
                                     DirectionsCall src dst
                                       # snd (plan_stops env src dst base initial full))))))))"

text \<open>
  The hops of a chain of coordinates: the first hop is at most \<open>first\<close>, every later hop
  at most \<open>later\<close>.
\<close>

fun legs_within :: "(coord \<Rightarrow> coord \<Rightarrow> rat) \<Rightarrow> rat \<Rightarrow> rat \<Rightarrow> coord list \<Rightarrow> bool" where
  "legs_within km first later [] = True"
| "legs_within km first later [a] = True"
| "legs_within km first later (a # b # w) = (km a b \<le> first \<and> legs_within km later later (b # w))"

text \<open>
  An instance with two candidates: the direct trip of 400 km exceeds the initial range of
  150 km; candidate 0 lies 140 km from the origin and 260 km from the destination;
  candidate 1 lies 100 km from the origin, 50 km from candidate 0 and 310 km from the
  destination.
\<close>

definition table :: "node \<Rightarrow> node \<Rightarrow> rat" where
  "table a b =
     (if a = b then 0
      else if {a, b} = {Origin, Destination} then 400
      else if {a, b} = {Origin, Candidate 0} then 140
      else if {a, b} = {Candidate 0, Destination} then 260
      else if {a, b} = {Origin, Candidate 1} then 100
      else if {a, b} = {Candidate 1, Destination} then 310
      else if {a, b} = {Candidate 0, Candidate 1} then 50
      else 1000)"

definition two_candidates :: planning_graph where
  "two_candidates =
     \<lparr> ratings = [Some 4, None], distance = table, straight_line = (\<lambda>n. table n Destination),
       initial_range = 150, full_range = 300 \<rparr>"

text \<open>
  The specification's scenarios 2 and 3, on a line: the destination at \<open>length_km\<close> and
  one candidate at \<open>at_km\<close> from the origin.
\<close>

definition line_position :: "rat \<Rightarrow> rat \<Rightarrow> node \<Rightarrow> rat" where
  "line_position length_km at_km n =
     (case n of Origin \<Rightarrow> 0 | Destination \<Rightarrow> length_km | Candidate i \<Rightarrow> at_km)"

definition line_trip :: "rat \<Rightarrow> rat \<Rightarrow> rat \<Rightarrow> rat \<Rightarrow> planning_graph" where
  "line_trip length_km at_km initial full =
     \<lparr> ratings = [None],
       distance = (\<lambda>a b. \<bar>line_position length_km at_km a - line_position length_km at_km b\<bar>),
       straight_line = (\<lambda>a. \<bar>line_position length_km at_km a - length_km\<bar>),
       initial_range = initial, full_range = full \<rparr>"

section \<open>Concrete inputs\<close>

text \<open>The inputs at which the theorems below are instantiated.\<close>

definition station_numbered :: "nat \<Rightarrow> station" where
  "station_numbered k =
     \<lparr> name = Some (''Station '' @ decimal k), address = Some ''Main Road'',
       rating = Number 4, lat = Number (17 + of_nat k), lng = Number 78 \<rparr>"

definition twelve_stations :: "station list" where
  "twelve_stations =
     [station_numbered 0, station_numbered 1, station_numbered 2, station_numbered 3,
      station_numbered 4, station_numbered 5, station_numbered 6, station_numbered 7,
      station_numbered 8, station_numbered 9, station_numbered 10, station_numbered 11]"

definition result_with :: "rat \<Rightarrow> rat \<Rightarrow> num_field \<Rightarrow> station list \<Rightarrow> route_result" where
  "result_with d e c sts =
     \<lparr> result_error = None, total_distance_km = Number d, estimated_range_km = Number e,
       charging_suggestions = Some \<lparr> count = c, stations = Some sts \<rparr>, path = None \<rparr>"

definition result_without_suggestions :: route_result where
  "result_without_suggestions =
     \<lparr> result_error = None, total_distance_km = Number 150, estimated_range_km = Number 240,
       charging_suggestions = None, path = None \<rparr>"

definition station_without_lat :: station where
  "station_without_lat =
     \<lparr> name = Some ''Nowhere'', address = None, rating = Missing, lat = Missing,
       lng = Number 78 \<rparr>"

definition model_300 :: ev_model where
  "model_300 = \<lparr> ev_model_id = 1, model_name = ''M'', max_range = 300 \<rparr>"

definition ready_to_ask :: app_state where
  "ready_to_ask =
     initial_state\<lparr> evModels := [model_300], selectedModel := Some model_300,
       batteryPercent := 55, fromLocation := ''A'', toLocation := ''B'' \<rparr>"

definition response_500 :: response where
  "response_500 = \<lparr> status = 500, text_read = Inr ''Internal Server Error'',
                     json_read = Inl SyntaxError \<rparr>"

definition response_not_json :: response where
  "response_not_json = \<lparr> status = 200, text_read = Inr ''<html>'', json_read = Inl SyntaxError \<rparr>"

definition response_json :: "jsval \<Rightarrow> response" where
  "response_json data = \<lparr> status = 200, text_read = Inr [], json_read = Inr data \<rparr>"

definition spec_model_200 :: EVModel where
  "spec_model_200 =
     \<lparr> modelId = 2, displayName = ''S'', maxRange = 200, batteryCapacity = 40,
       consumptionRate = 1 / 5 \<rparr>"

definition spec_model_300 :: EVModel where
  "spec_model_300 =
     \<lparr> modelId = 1, displayName = ''M'', maxRange = 300, batteryCapacity = 60,
       consumptionRate = 1 / 5 \<rparr>"

text \<open>
  Collaborators for a trip along a line: the places are \<open>(0, x)\<close> with \<open>x\<close> in
  kilometres, the route has the given length and candidates are found at the given
  places.
\<close>

definition candidate_at :: "rat \<Rightarrow> ChargingCandidate" where
  "candidate_at x =
     \<lparr> coordinate = Some (0, x), candidateName = ''Charger'', candidateAddress = ''Main Road'',
       candidateRating = None, distanceFromRoute = None \<rparr>"

definition line_collaborators :: "rat \<Rightarrow> rat list \<Rightarrow> collaborators" where
  "line_collaborators length_km places =
     \<lparr> catalog = [spec_model_300, spec_model_200],
       directions =
         (\<lambda>a b. Inr \<lparr> waypoints = [a, b], distanceKm = length_km, durationMin = None \<rparr>),
       findCandidates = (\<lambda>corridor radius. Inr (map candidate_at places)),
       hopKm = (\<lambda>a b. \<bar>snd a - snd b\<bar>),
       straightKm = (\<lambda>a b. \<bar>snd a - snd b\<bar>),
       radiusKm = 5 \<rparr>"

definition line_request :: "rat \<Rightarrow> int \<Rightarrow> int \<Rightarrow> PlanningRequest" where
  "line_request length_km model percent =
     \<lparr> origin = Some (0, 0), destination = Some (0, length_km), evModelId = model,
       batteryPct = percent \<rparr>"

section \<open>Properties of the trip summary\<close>

lemma map_rows_length: "length (map_rows k sts) = length sts"
  by (induction sts arbitrary: k) simp_all

lemma map_rows_nth: "i < length sts \<Longrightarrow> map_rows k sts ! i = station_row_of (k + i) (sts ! i)"
proof (induction sts arbitrary: k i)
  case Nil
  then show ?case by simp
next
  case (Cons st sts)
  show ?case
  proof (cases i)
    case 0
    then show ?thesis by simp
  next
    case (Suc j)
    with Cons.prems have "j < length sts" by simp
    from Cons.IH [OF this, of "Suc k"] Suc show ?thesis by simp
  qed
qed

lemma rendered_rows_eq:
  "rendered_rows r = map_rows 0 (take 10 (result_stations (Some r)))"
  by (cases "charging_suggestions r";
      simp add: rendered_rows_def summary_of_def station_list_block_def stations_length_def
        js_gt_def to_number_def result_stations_def split: option.splits)

text \<open>
  C9. For a planning result with a station list of length \<open>n\<close>, the list of the trip
  summary shows exactly the first \<open>min 10 n\<close> stations, in the order received: there are
  \<open>min 10 n\<close> rows, row \<open>i\<close> has key \<open>i\<close> and shows the name, the address and the rating
  of station \<open>i\<close>, and no row has a key of ten or more.
\<close>

theorem display_limit:
  assumes "charging_suggestions r = Some cs" and "stations cs = Some sts"
  shows "length (rendered_rows r) = min 10 (length sts)
       \<and> (\<forall>i < min 10 (length sts).
             row_key (rendered_rows r ! i) = i
           \<and> row_name (rendered_rows r ! i) = name (sts ! i)
           \<and> row_address (rendered_rows r ! i) = address (sts ! i)
           \<and> row_rating (rendered_rows r ! i)
               = (case rating (sts ! i) of
                    Number x \<Rightarrow> (if x \<noteq> 0 then StarRating x else BareNumber x)
                  | _ \<Rightarrow> NoRating))
       \<and> (\<forall>row \<in> set (rendered_rows r). row_key row < 10)"
proof -
  have rs: "result_stations (Some r) = sts"
    using assms by (simp add: result_stations_def)
  have a: "rendered_rows r = map_rows 0 (take 10 sts)"
    by (simp add: rendered_rows_eq rs)
  have l: "length (rendered_rows r) = min 10 (length sts)"
    by (simp add: a map_rows_length min_def)
  have n: "rendered_rows r ! i = station_row_of i (sts ! i)" if "i < min 10 (length sts)" for i
  proof -
    from that have "i < length (take 10 sts)" by simp
    from map_rows_nth [OF this, of 0] that show ?thesis by (simp add: a)
  qed
  have c: "row_key (rendered_rows r ! i) = i
           \<and> row_name (rendered_rows r ! i) = name (sts ! i)
           \<and> row_address (rendered_rows r ! i) = address (sts ! i)
           \<and> row_rating (rendered_rows r ! i)
               = (case rating (sts ! i) of
                    Number x \<Rightarrow> (if x \<noteq> 0 then StarRating x else BareNumber x)
                  | _ \<Rightarrow> NoRating)"
    if "i < min 10 (length sts)" for i
    by (simp add: n [OF that] station_row_of_def rating_cell_of_def split: num_field.splits)
  have k: "row_key row < 10" if "row \<in> set (rendered_rows r)" for row
  proof -
    from that obtain i where i: "i < length (rendered_rows r)" and row: "row = rendered_rows r ! i"
      by (auto simp: in_set_conv_nth)
    from i l have "i < min 10 (length sts)" by simp
    with c [of i] row show ?thesis by simp
  qed
  from l c k show ?thesis by blast
qed

theorem display_limit_witness:
  "charging_suggestions (result_with 400 150 (Number 12) twelve_stations)
     = Some \<lparr> count = Number 12, stations = Some twelve_stations \<rparr>
   \<and> length twelve_stations = 12
   \<and> length (rendered_rows (result_with 400 150 (Number 12) twelve_stations)) = 10
   \<and> row_key (rendered_rows (result_with 400 150 (Number 12) twelve_stations) ! 9) = 9
   \<and> row_name (rendered_rows (result_with 400 150 (Number 12) twelve_stations) ! 9)
       = Some ''Station 9''
   \<and> row_address (rendered_rows (result_with 400 150 (Number 12) twelve_stations) ! 9)
       = Some ''Main Road''
   \<and> row_rating (rendered_rows (result_with 400 150 (Number 12) twelve_stations) ! 9)
       = StarRating 4"
proof -
  let ?r = "result_with 400 150 (Number 12) twelve_stations"
  let ?cs = "\<lparr> count = Number 12, stations = Some twelve_stations \<rparr>"
  have a: "charging_suggestions ?r = Some ?cs" by (simp add: result_with_def)
  have b: "stations ?cs = Some twelve_stations" by simp
  have n: "length twelve_stations = 12" by (simp add: twelve_stations_def)
  have s: "twelve_stations ! 9 = station_numbered 9" by (simp add: twelve_stations_def)
  have v: "name (station_numbered 9) = Some ''Station 9''"
    "address (station_numbered 9) = Some ''Main Road''"
    "rating (station_numbered 9) = Number 4"
    by (simp_all add: station_numbered_def)
  note t = display_limit [OF a b]
  from t have "length (rendered_rows ?r) = min 10 (length twelve_stations)" by blast
  with n have l: "length (rendered_rows ?r) = 10" by simp
  from n have "(9::nat) < min 10 (length twelve_stations)" by simp
  with t have "row_key (rendered_rows ?r ! 9) = 9
      \<and> row_name (rendered_rows ?r ! 9) = name (twelve_stations ! 9)
      \<and> row_address (rendered_rows ?r ! 9) = address (twelve_stations ! 9)
      \<and> row_rating (rendered_rows ?r ! 9)
          = (case rating (twelve_stations ! 9) of
               Number x \<Rightarrow> (if x \<noteq> 0 then StarRating x else BareNumber x)
             | _ \<Rightarrow> NoRating)"
    by blast
  with a n l s v show ?thesis by simp
qed

text \<open>
  The comparison on a \<^verbatim>\<open>null\<close> operand compares with \<open>0\<close>, and on a missing operand it
  is false.
\<close>

lemma js_gt_null_and_missing:
  "js_gt (Number 150) JsonNull \<and> \<not> js_gt JsonNull (Number 150)
   \<and> \<not> js_gt (Number 150) Missing \<and> \<not> js_gt Missing (Number 150)"
  by (simp add: js_gt_def to_number_def)

text \<open>
  C2. For total distance \<open>d\<close> and estimated range \<open>e\<close> (non-negative numbers; the proof
  needs no sign), the Feasibility Evaluator's rule gives \<open>DIRECT\<close> when \<open>d \<le> e\<close> and
  \<open>REQUIRES_CHARGING\<close> when \<open>d > e\<close>, and the charging warning of the trip summary is
  shown exactly when \<open>d > e\<close>, that is, exactly for \<open>REQUIRES_CHARGING\<close>.
\<close>

theorem warning_refines_classify:
  assumes "total_distance_km r = Number d" and "estimated_range_km r = Number e"
    and "0 \<le> d" and "0 \<le> e"
  shows "(d \<le> e \<longrightarrow> classify d e = DIRECT \<and> \<not> warning_shown (summary_of r))
       \<and> (e < d \<longrightarrow> classify d e = REQUIRES_CHARGING \<and> warning_shown (summary_of r))
       \<and> (warning_shown (summary_of r) \<longleftrightarrow> e < d)
       \<and> (warning_shown (summary_of r) \<longleftrightarrow> classify d e = REQUIRES_CHARGING)"
  using assms by (simp add: classify_def summary_of_def js_gt_def to_number_def)

theorem warning_refines_classify_witness:
  "total_distance_km (result_with 150 240 Missing []) = Number 150
   \<and> estimated_range_km (result_with 150 240 Missing []) = Number 240
   \<and> classify 150 240 = DIRECT
   \<and> \<not> warning_shown (summary_of (result_with 150 240 Missing []))
   \<and> total_distance_km (result_with 400 150 Missing []) = Number 400
   \<and> estimated_range_km (result_with 400 150 Missing []) = Number 150
   \<and> classify 400 150 = REQUIRES_CHARGING
   \<and> warning_shown (summary_of (result_with 400 150 Missing []))"
proof -
  have a: "total_distance_km (result_with 150 240 Missing []) = Number 150"
    and b: "estimated_range_km (result_with 150 240 Missing []) = Number 240"
    and c: "total_distance_km (result_with 400 150 Missing []) = Number 400"
    and d: "estimated_range_km (result_with 400 150 Missing []) = Number 150"
    by (simp_all add: result_with_def)
  from warning_refines_classify [OF a b] warning_refines_classify [OF c d] a b c d
  show ?thesis by simp
qed

text \<open>
  C8, as the code has it. When \<^verbatim>\<open>charging_suggestions\<close> is absent the summary shows a
  charger count of \<open>0\<close> and no station list. When the station list is absent or empty
  no station list is shown, and the count shown is the \<^verbatim>\<open>count\<close> field of the reply (\<open>0\<close>
  when that field is missing, \<^verbatim>\<open>null\<close> or \<open>0\<close>). A reply without an \<^verbatim>\<open>error\<close> field leaves
  the error message of the page as it was and becomes the summary shown.
\<close>

theorem no_candidates_no_error:
  "(charging_suggestions r = None
      \<longrightarrow> shown_charger_count (summary_of r) = 0 \<and> station_list (summary_of r) = None)
   \<and> (charging_suggestions r = Some cs \<and> (stations cs = None \<or> stations cs = Some [])
      \<longrightarrow> station_list (summary_of r) = None
          \<and> shown_charger_count (summary_of r) = or_zero (count cs)
          \<and> (count cs = Missing \<or> count cs = JsonNull \<or> count cs = Number 0
              \<longrightarrow> shown_charger_count (summary_of r) = 0))
   \<and> (result_error r = None
      \<longrightarrow> error (handleGetRoute_finish s r) = error s
          \<and> render_trip_summary (handleGetRoute_finish s r) = Some (summary_of r))"
  by (auto simp: summary_of_def suggestions_count_def or_zero_def station_list_block_def
      stations_length_def js_gt_def to_number_def handleGetRoute_finish_def
      render_trip_summary_def)

theorem no_candidates_no_error_witness:
  "charging_suggestions result_without_suggestions = None
   \<and> shown_charger_count (summary_of result_without_suggestions) = 0
   \<and> station_list (summary_of result_without_suggestions) = None
   \<and> result_error result_without_suggestions = None
   \<and> error (handleGetRoute_finish (fst (handleGetRoute_start ready_to_ask)) result_without_suggestions)
       = None
   \<and> charging_suggestions (result_with 500 100 (Number 0) [])
       = Some \<lparr> count = Number 0, stations = Some [] \<rparr>
   \<and> station_list (summary_of (result_with 500 100 (Number 0) [])) = None
   \<and> shown_charger_count (summary_of (result_with 500 100 (Number 0) [])) = 0"
proof -
  have a: "charging_suggestions result_without_suggestions = None"
    and b: "result_error result_without_suggestions = None"
    by (simp_all add: result_without_suggestions_def)
  have c: "charging_suggestions (result_with 500 100 (Number 0) [])
             = Some \<lparr> count = Number 0, stations = Some [] \<rparr>"
    by (simp add: result_with_def)
  have e: "error (fst (handleGetRoute_start ready_to_ask)) = None"
    by (simp add: handleGetRoute_start_def ready_to_ask_def initial_state_def)
  from no_candidates_no_error
         [of result_without_suggestions "\<lparr> count = Missing, stations = None \<rparr>"
            "fst (handleGetRoute_start ready_to_ask)"]
       no_candidates_no_error
         [of "result_with 500 100 (Number 0) []" "\<lparr> count = Number 0, stations = Some [] \<rparr>"
            initial_state]
       a b c e
  show ?thesis by simp
qed

text \<open>
  The claim C8 as stated fails: with an empty station list and a \<^verbatim>\<open>count\<close> field of 3 the
  summary shows a charger count of 3.
\<close>

theorem empty_list_count_not_zero:
  "result_stations (Some (result_with 100 200 (Number 3) [])) = []
   \<and> shown_charger_count (summary_of (result_with 100 200 (Number 3) [])) = 3
   \<and> shown_charger_count (summary_of (result_with 100 200 (Number 3) [])) \<noteq> 0"
  by (simp add: result_with_def result_stations_def summary_of_def suggestions_count_def
      or_zero_def)

section \<open>Properties of the map markers\<close>

lemma forEach_station_eq: "forEach_station sts ms = ms @ List.map_filter station_marker sts"
  by (induction sts arbitrary: ms) (simp_all add: List.map_filter_simps split: option.splits)

text \<open>
  C6. A station without \<^verbatim>\<open>lat\<close> or without \<^verbatim>\<open>lng\<close> (the field is missing or \<^verbatim>\<open>null\<close>) gets
  no marker, and the loop goes on: the markers built from a list that contains it are
  those built from the list without it.
\<close>

theorem missing_coordinate_discarded:
  assumes "lat st = Missing \<or> lat st = JsonNull \<or> lng st = Missing \<or> lng st = JsonNull"
  shows "station_marker st = None
       \<and> forEach_station (xs @ st # ys) ms = forEach_station (xs @ ys) ms
       \<and> update_markers True
            (Some (r\<lparr> charging_suggestions := Some \<lparr> count = c, stations = Some (xs @ st # ys) \<rparr> \<rparr>)) old
          = update_markers True
            (Some (r\<lparr> charging_suggestions := Some \<lparr> count = c, stations = Some (xs @ ys) \<rparr> \<rparr>)) old"
proof -
  from assms have m: "station_marker st = None"
    by (auto simp: station_marker_def truthy_num_def)
  have f: "forEach_station (xs @ st # ys) zs = forEach_station (xs @ ys) zs" for zs
    by (simp add: forEach_station_eq List.map_filter_def m)
  show ?thesis
    by (simp add: m f update_markers_def result_stations_def)
qed

theorem missing_coordinate_discarded_witness:
  "lat station_without_lat = Missing
   \<and> station_marker station_without_lat = None
   \<and> forEach_station ([station_numbered 0] @ station_without_lat # [station_numbered 1]) []
       = [\<lparr> position = (17, 78), title = Some ''Station 0'' \<rparr>,
          \<lparr> position = (18, 78), title = Some ''Station 1'' \<rparr>]"
proof -
  have a: "lat station_without_lat = Missing" by (simp add: station_without_lat_def)
  then have b: "lat station_without_lat = Missing \<or> lat station_without_lat = JsonNull
      \<or> lng station_without_lat = Missing \<or> lng station_without_lat = JsonNull"
    by simp
  have c: "forEach_station ([station_numbered 0] @ [station_numbered 1]) []
             = [\<lparr> position = (17, 78), title = Some ''Station 0'' \<rparr>,
                \<lparr> position = (18, 78), title = Some ''Station 1'' \<rparr>]"
    by (simp add: station_numbered_def station_marker_def truthy_num_def)
  from missing_coordinate_discarded
         [OF b, where xs = "[station_numbered 0]" and ys = "[station_numbered 1]" and ms = "[]"
            and r = result_without_suggestions and c = Missing and old = "[]"] a c
  show ?thesis by simp
qed

section \<open>Properties of the form\<close>

text \<open>
  C10. The clear action puts \<open>fromLocation\<close>, \<open>toLocation\<close>, \<open>fromCoords\<close>, \<open>toCoords\<close>,
  \<open>routeResult\<close>, \<open>previewRoute\<close> and \<open>error\<close> back to their initial values (the empty
  string, or \<^verbatim>\<open>null\<close>) and leaves \<open>evModels\<close>, \<open>selectedModel\<close>, \<open>batteryPercent\<close>,
  \<open>darkMode\<close> and \<open>chargerFilter\<close> as they were.
\<close>

theorem handleClear_frame:
  "fromLocation (handleClear s) = fromLocation initial_state
   \<and> toLocation (handleClear s) = toLocation initial_state
   \<and> fromCoords (handleClear s) = fromCoords initial_state
   \<and> toCoords (handleClear s) = toCoords initial_state
   \<and> routeResult (handleClear s) = routeResult initial_state
   \<and> previewRoute (handleClear s) = previewRoute initial_state
   \<and> error (handleClear s) = error initial_state
   \<and> fromLocation (handleClear s) = []
   \<and> toLocation (handleClear s) = []
   \<and> fromCoords (handleClear s) = None
   \<and> toCoords (handleClear s) = None
   \<and> routeResult (handleClear s) = None
   \<and> previewRoute (handleClear s) = None
   \<and> error (handleClear s) = None
   \<and> evModels (handleClear s) = evModels s
   \<and> selectedModel (handleClear s) = selectedModel s
   \<and> batteryPercent (handleClear s) = batteryPercent s
   \<and> darkMode (handleClear s) = darkMode s
   \<and> chargerFilter (handleClear s) = chargerFilter s"
  by (simp add: handleClear_def initial_state_def)

text \<open>In every state that the page can reach the battery percent lies in 10 to 100.\<close>

lemma reachable_battery: "reachable s \<Longrightarrow> 10 \<le> batteryPercent s \<and> batteryPercent s \<le> 100"
proof (induction rule: reachable.induct)
  case init
  show ?case by (simp add: initial_state_def)
next
  case (models_loaded s data)
  then show ?case by (simp add: loadModels_def split: sum.splits list.splits)
next
  case (preview s)
  then show ?case by (simp add: preview_effect_def split: option.splits)
next
  case (route_asked s)
  then show ?case by (simp add: handleGetRoute_start_def split: option.splits)
next
  case (route_answered s result)
  then show ?case by (simp add: handleGetRoute_finish_def split: option.splits)
qed (simp_all add: selectModel_def handleClear_def battery_control_def)

lemma ready_to_ask_reachable: "reachable ready_to_ask"
proof -
  have "reachable (loadModels initial_state (Inr [model_300]))"
    by (rule reachable.models_loaded [OF reachable.init])
  then have "reachable ((loadModels initial_state (Inr [model_300]))
                \<lparr> batteryPercent := battery_control 55 \<rparr>)"
    by (rule reachable.battery_moved)
  then have "reachable ((loadModels initial_state (Inr [model_300]))\<lparr> batteryPercent := 55 \<rparr>)"
    by (simp add: battery_control_def)
  then have "reachable ((loadModels initial_state (Inr [model_300]))
                \<lparr> batteryPercent := 55, fromLocation := ''A'' \<rparr>)"
    by (rule reachable.from_typed)
  then have "reachable ((loadModels initial_state (Inr [model_300]))
                \<lparr> batteryPercent := 55, fromLocation := ''A'', toLocation := ''B'' \<rparr>)"
    by (rule reachable.to_typed)
  then show ?thesis
    by (simp add: ready_to_ask_def loadModels_def initial_state_def)
qed

section \<open>Properties of the API helper\<close>

text \<open>
  C7. \<^verbatim>\<open>getEvModels\<close> and \<^verbatim>\<open>getPrediction\<close> never throw. When the response is not ok, when
  \<^verbatim>\<open>fetch\<close> fails or when the body does not parse, they return an object with an error
  string. When the response is ok and parses, \<^verbatim>\<open>getPrediction\<close> returns the parsed
  payload, and \<^verbatim>\<open>getEvModels\<close> returns the \<^verbatim>\<open>models\<close> array of the payload, or the empty
  array when the payload has no \<^verbatim>\<open>models\<close> field.
\<close>

theorem api_errors_are_values:
  "(\<exists>v. getEvModels fetch = Inr v)
   \<and> (\<exists>v. getPrediction fetch f t i b = Inr v)
   \<and> (\<forall>res. fetch ev_models_request = Inr res \<and> \<not> ok res
        \<longrightarrow> (\<exists>v. getEvModels fetch = Inr v \<and> carries_error v))
   \<and> (\<forall>res. fetch (prediction_request f t i b) = Inr res \<and> \<not> ok res
        \<longrightarrow> (\<exists>v. getPrediction fetch f t i b = Inr v \<and> carries_error v))
   \<and> (\<forall>e. fetch ev_models_request = Inl e
        \<longrightarrow> (\<exists>v. getEvModels fetch = Inr v \<and> carries_error v))
   \<and> (\<forall>e. fetch (prediction_request f t i b) = Inl e
        \<longrightarrow> (\<exists>v. getPrediction fetch f t i b = Inr v \<and> carries_error v))
   \<and> (\<forall>res e. fetch ev_models_request = Inr res \<and> ok res \<and> json_read res = Inl e
        \<longrightarrow> (\<exists>v. getEvModels fetch = Inr v \<and> carries_error v))
   \<and> (\<forall>res e. fetch (prediction_request f t i b) = Inr res \<and> ok res \<and> json_read res = Inl e
        \<longrightarrow> (\<exists>v. getPrediction fetch f t i b = Inr v \<and> carries_error v))
   \<and> (\<forall>res data. fetch (prediction_request f t i b) = Inr res \<and> ok res
          \<and> json_read res = Inr data
        \<longrightarrow> getPrediction fetch f t i b = Inr data)
   \<and> (\<forall>res data ms. fetch ev_models_request = Inr res \<and> ok res \<and> json_read res = Inr data
          \<and> get_field data ''models'' = Inr (JArr ms)
        \<longrightarrow> getEvModels fetch = Inr (JArr ms))
   \<and> (\<forall>res data. fetch ev_models_request = Inr res \<and> ok res \<and> json_read res = Inr data
          \<and> get_field data ''models'' = Inr JUndefined
        \<longrightarrow> getEvModels fetch = Inr (JArr []))"
  by (auto simp: getEvModels_def getEvModels_try_def getPrediction_def getPrediction_try_def
      carries_error_def error_object_def split: sum.splits)

theorem api_errors_are_values_witness:
  "\<not> ok response_500
   \<and> getEvModels (\<lambda>q. Inr response_500) = Inr (error_object ''Failed to load EV models: 500'')
   \<and> getPrediction (\<lambda>q. Inr response_500) ''A'' ''B'' 1 80
       = Inr (error_object ''Prediction API failed: 500'')
   \<and> getEvModels (\<lambda>q. Inl NetworkError) = Inr (error_object ''Failed to fetch EV models'')
   \<and> getPrediction (\<lambda>q. Inl NetworkError) ''A'' ''B'' 1 80
       = Inr (error_object ''Failed to fetch prediction'')
   \<and> ok response_not_json
   \<and> carries_error (projr (getEvModels (\<lambda>q. Inr response_not_json)))
   \<and> carries_error (projr (getPrediction (\<lambda>q. Inr response_not_json) ''A'' ''B'' 1 80))
   \<and> ok (response_json (JObj [(''models'', JArr [JNum 1])]))
   \<and> getPrediction (\<lambda>q. Inr (response_json (JObj [(''models'', JArr [JNum 1])]))) ''A'' ''B'' 1 80
       = Inr (JObj [(''models'', JArr [JNum 1])])
   \<and> getEvModels (\<lambda>q. Inr (response_json (JObj [(''models'', JArr [JNum 1])])))
       = Inr (JArr [JNum 1])
   \<and> getEvModels (\<lambda>q. Inr (response_json (JObj []))) = Inr (JArr [])"
proof -
  let ?data = "JObj [(''models'', JArr [JNum 1])]"
  have k: "\<not> ok response_500" "ok response_not_json" "ok (response_json d)" for d
    by (simp_all add: ok_def response_500_def response_not_json_def response_json_def)
  have j: "json_read response_not_json = Inl SyntaxError" "json_read (response_json d) = Inr d" for d
    by (simp_all add: response_not_json_def response_json_def)
  have g: "get_field ?data ''models'' = Inr (JArr [JNum 1])"
    "get_field (JObj []) ''models'' = Inr JUndefined"
    by simp_all
  have e500: "getEvModels (\<lambda>q. Inr response_500) = Inr (error_object ''Failed to load EV models: 500'')"
    "getPrediction (\<lambda>q. Inr response_500) ''A'' ''B'' 1 80
       = Inr (error_object ''Prediction API failed: 500'')"
    by (simp_all add: getEvModels_def getEvModels_try_def getPrediction_def getPrediction_try_def
        ok_def response_500_def)
  have net: "getEvModels (\<lambda>q. Inl NetworkError) = Inr (error_object ''Failed to fetch EV models'')"
    "getPrediction (\<lambda>q. Inl NetworkError) ''A'' ''B'' 1 80
       = Inr (error_object ''Failed to fetch prediction'')"
    by (simp_all add: getEvModels_def getEvModels_try_def getPrediction_def getPrediction_try_def)
  note t1 = api_errors_are_values [of "\<lambda>q. Inr response_not_json" "''A''" "''B''" 1 80]
  note t2 = api_errors_are_values [of "\<lambda>q. Inr (response_json ?data)" "''A''" "''B''" 1 80]
  note t3 = api_errors_are_values [of "\<lambda>q. Inr (response_json (JObj []))" "''A''" "''B''" 1 80]
  from t1 k j have p1: "carries_error (projr (getEvModels (\<lambda>q. Inr response_not_json)))"
    "carries_error (projr (getPrediction (\<lambda>q. Inr response_not_json) ''A'' ''B'' 1 80))"
    by auto
  from t2 k j g have p2:
    "getPrediction (\<lambda>q. Inr (response_json ?data)) ''A'' ''B'' 1 80 = Inr ?data"
    "getEvModels (\<lambda>q. Inr (response_json ?data)) = Inr (JArr [JNum 1])"
    by blast+
  from t3 k j g have p3: "getEvModels (\<lambda>q. Inr (response_json (JObj []))) = Inr (JArr [])"
    by blast
  from k e500 net p1 p2 p3 show ?thesis by simp
qed

section \<open>Properties of the Range Estimator\<close>

text \<open>
  C4. For a model with a positive maximum range and battery percents \<open>p1 \<le> p2\<close> between
  0 and 100, \<open>estimateRange\<close> returns \<open>maxRange * p / 100\<close> for both, the value is not
  negative, and the value for \<open>p1\<close> is at most the value for \<open>p2\<close>.
\<close>

theorem estimateRange_linear_monotone:
  assumes "0 < maxRange m" and "0 \<le> p1" and "p1 \<le> p2" and "p2 \<le> 100"
  shows "estimateRange (Some m) p1 = Inr (maxRange m * of_int p1 / 100)
       \<and> estimateRange (Some m) p2 = Inr (maxRange m * of_int p2 / 100)
       \<and> 0 \<le> maxRange m * of_int p1 / 100
       \<and> maxRange m * of_int p1 / 100 \<le> maxRange m * of_int p2 / 100"
proof -
  from assms have r: "0 \<le> p1" "p1 \<le> 100" "0 \<le> p2" "p2 \<le> 100" by simp_all
  from assms(1) r(1) have n1: "0 \<le> maxRange m * of_int p1 / 100" by simp
  from assms(1) r(3) have n2: "0 \<le> maxRange m * of_int p2 / 100" by simp
  from assms(1,3) have "maxRange m * of_int p1 \<le> maxRange m * of_int p2"
    by (simp add: mult_left_mono)
  then have mono: "maxRange m * of_int p1 / 100 \<le> maxRange m * of_int p2 / 100"
    by (simp add: divide_right_mono)
  from r n1 have e1: "estimateRange (Some m) p1 = Inr (maxRange m * of_int p1 / 100)"
    by (simp add: estimateRange_def max_def)
  from r n2 have e2: "estimateRange (Some m) p2 = Inr (maxRange m * of_int p2 / 100)"
    by (simp add: estimateRange_def max_def)
  from e1 e2 n1 mono show ?thesis by simp
qed

theorem estimateRange_linear_monotone_witness:
  "0 < maxRange spec_model_300
   \<and> estimateRange (Some spec_model_300) 50 = Inr 150
   \<and> estimateRange (Some spec_model_300) 80 = Inr 240
   \<and> (150 :: rat) \<le> 240"
proof -
  have a: "0 < maxRange spec_model_300" by (simp add: spec_model_300_def)
  have v: "maxRange spec_model_300 = 300" by (simp add: spec_model_300_def)
  from estimateRange_linear_monotone [OF a, of 50 80] a v show ?thesis by simp
qed

section \<open>Properties of the Stop Selector\<close>

lemma total_snoc: "w \<noteq> [] \<Longrightarrow> total_km p (w @ [m]) = total_km p w + distance p (last w) m"
  by (induction p w rule: total_km.induct) simp_all

lemma within_budget_snoc:
  "w \<noteq> [] \<Longrightarrow>
   within_budget p (w @ [m]) = (within_budget p w \<and> distance p (last w) m \<le> budget p (last w))"
  by (induction p w rule: within_budget.induct) auto

lemma within_budget_prefix: "within_budget p (w1 @ w2) \<Longrightarrow> w1 \<noteq> [] \<Longrightarrow> within_budget p w1"
proof (induction w2 rule: rev_induct)
  case Nil
  then show ?case by simp
next
  case (snoc x xs)
  from snoc.prems have "within_budget p ((w1 @ xs) @ [x])" by simp
  moreover from snoc.prems(2) have "w1 @ xs \<noteq> []" by simp
  ultimately have "within_budget p (w1 @ xs)"
    using within_budget_snoc [of "w1 @ xs" p x] by blast
  with snoc show ?case by simp
qed

lemma route_prefix: "route p (w1 @ w2) \<Longrightarrow> w1 \<noteq> [] \<Longrightarrow> route p w1"
  by (auto simp: route_def dest: within_budget_prefix)

lemma route_snoc:
  "route p w \<Longrightarrow> m \<in> set (all_nodes p) \<Longrightarrow> distance p (last w) m \<le> budget p (last w) \<Longrightarrow>
   route p (w @ [m])"
  by (simp add: route_def within_budget_snoc)

lemma potential_mono:
  assumes "consistent p" and "w1 \<noteq> []" and "set (w1 @ w2) \<subseteq> set (all_nodes p)"
    and "within_budget p (w1 @ w2)"
  shows "total_km p w1 + straight_line p (last w1)
         \<le> total_km p (w1 @ w2) + straight_line p (last (w1 @ w2))"
  using assms(3,4)
proof (induction w2 rule: rev_induct)
  case Nil
  show ?case by simp
next
  case (snoc x xs)
  from snoc.prems have sub: "set (w1 @ xs) \<subseteq> set (all_nodes p)" and x: "x \<in> set (all_nodes p)"
    by simp_all
  from assms(2) have ne: "w1 @ xs \<noteq> []" by simp
  from snoc.prems(2) have "within_budget p ((w1 @ xs) @ [x])" by simp
  with ne have wb: "within_budget p (w1 @ xs)"
    and hop: "distance p (last (w1 @ xs)) x \<le> budget p (last (w1 @ xs))"
    using within_budget_snoc [of "w1 @ xs" p x] by blast+
  from ne have "last (w1 @ xs) \<in> set (w1 @ xs)" by (rule last_in_set)
  with sub have l: "last (w1 @ xs) \<in> set (all_nodes p)" by blast
  from assms(1) l x hop
  have c: "straight_line p (last (w1 @ xs)) \<le> distance p (last (w1 @ xs)) x + straight_line p x"
    by (simp add: consistent_def)
  have t: "total_km p (w1 @ xs @ [x]) = total_km p (w1 @ xs) + distance p (last (w1 @ xs)) x"
    using total_snoc [OF ne, of p x] by simp
  from snoc.IH [OF sub wb] c t show ?case by simp
qed

lemma frontier_covers:
  assumes "search_inv p U F"
  shows "route p P \<Longrightarrow> last P \<in> set U \<Longrightarrow>
         \<exists>e \<in> set F. \<exists>P1 P2. P = P1 @ P2 \<and> P1 \<noteq> [] \<and> entry_node e = last P1 \<and> g_score e \<le> total_km p P1"
proof (induction P rule: rev_induct)
  case Nil
  then show ?case by (simp add: route_def)
next
  case (snoc x Q)
  show ?case
  proof (cases "Q = []")
    case True
    with snoc.prems have x: "x = Origin" and "Origin \<in> set U" by (simp_all add: route_def)
    with assms obtain e where "e \<in> set F" "entry_node e = Origin" "g_score e \<le> 0"
      by (auto simp: search_inv_def)
    with True x have "e \<in> set F \<and> Q @ [x] = [x] @ [] \<and> [x] \<noteq> [] \<and> entry_node e = last [x] \<and> g_score e \<le> total_km p [x]"
      by simp
    then show ?thesis by blast
  next
    case False
    from snoc.prems(1) False have rq: "route p Q" by (rule route_prefix)
    show ?thesis
    proof (cases "last Q \<in> set U")
      case True
      from snoc.IH [OF rq True] obtain e P1 P2 where
        "e \<in> set F" "Q = P1 @ P2" "P1 \<noteq> []" "entry_node e = last P1" "g_score e \<le> total_km p P1"
        by blast
      then have "e \<in> set F \<and> Q @ [x] = P1 @ (P2 @ [x]) \<and> P1 \<noteq> [] \<and> entry_node e = last P1 \<and> g_score e \<le> total_km p P1"
        by simp
      then show ?thesis by blast
    next
      case notin: False
      from snoc.prems(1) False have d: "distance p (last Q) x \<le> budget p (last Q)"
        by (simp add: route_def within_budget_snoc)
      from snoc.prems(2) have xU: "x \<in> set U" by simp
      from assms rq notin xU d obtain e where
        e: "e \<in> set F" "entry_node e = x" "g_score e \<le> total_km p Q + distance p (last Q) x"
        unfolding search_inv_def by blast
      from e False have "e \<in> set F \<and> Q @ [x] = (Q @ [x]) @ [] \<and> Q @ [x] \<noteq> []
          \<and> entry_node e = last (Q @ [x]) \<and> g_score e \<le> total_km p (Q @ [x])"
        by (simp add: total_snoc)
      then show ?thesis by blast
    qed
  qed
qed

lemma best_entry_least: "\<forall>x \<in> set (b # es). f_score p (best_entry p b es) \<le> f_score p x"
proof (induction es arbitrary: b)
  case Nil
  show ?case by simp
next
  case (Cons e es)
  let ?b = "if before p e b then e else b"
  have le: "f_score p ?b \<le> f_score p b \<and> f_score p ?b \<le> f_score p e"
    by (auto simp: before_def)
  from Cons [of ?b] have "\<forall>x \<in> set (?b # es). f_score p (best_entry p ?b es) \<le> f_score p x" .
  with le show ?case by (auto simp del: best_entry.simps simp add: best_entry.simps(2) [of p b e es])
qed

lemma pop_best_least:
  assumes "pop_best p F = Some (e, rest)" and "x \<in> set F"
  shows "f_score p e \<le> f_score p x"
proof -
  from assms(1) obtain a as where fr: "F = a # as" and e: "e = best_entry p a as"
    by (cases F) (auto simp: pop_best_def simp del: remove1.simps)
  from best_entry_least [of a as p] assms(2) fr e show ?thesis by blast
qed

lemma popped_is_shortest:
  assumes c: "consistent p" and i: "search_inv p U F" and pop: "pop_best p F = Some (e, rest)"
    and inU: "entry_node e \<in> set U" and r: "route p Q" and l: "last Q = entry_node e"
  shows "g_score e \<le> total_km p Q"
proof -
  from l inU have "last Q \<in> set U" by simp
  from frontier_covers [OF i r this] obtain e' P1 P2 where
    e': "e' \<in> set F" and q: "Q = P1 @ P2" and ne: "P1 \<noteq> []"
    and n: "entry_node e' = last P1" and ge: "g_score e' \<le> total_km p P1"
    by blast
  from pop_best_least [OF pop e'] have "f_score p e \<le> f_score p e'" .
  then have 1: "g_score e + straight_line p (last Q) \<le> g_score e' + straight_line p (last P1)"
    by (simp add: f_score_def l n)
  from r q have "set (P1 @ P2) \<subseteq> set (all_nodes p)" and "within_budget p (P1 @ P2)"
    by (simp_all add: route_def)
  from potential_mono [OF c ne this] q
  have 2: "total_km p P1 + straight_line p (last P1) \<le> total_km p Q + straight_line p (last Q)"
    by simp
  from 1 2 ge show ?thesis by simp
qed


lemma trail_last: "last (trail e) = entry_node e" and trail_nonempty: "trail e \<noteq> []"
  by (simp_all add: trail_def)

lemma kept_after_pop:
  assumes "pop_best p F = Some (e, rest)" and "x \<in> set F" and "entry_node x \<noteq> entry_node e"
  shows "x \<in> set rest"
proof -
  from assms(3) have "x \<noteq> e" by auto
  with pop_best_Some(2) [OF assms(1)] assms(2) show ?thesis by simp
qed

lemma rest_subset:
  assumes "pop_best p F = Some (e, rest)"
  shows "set rest \<subseteq> set F"
  using pop_best_Some(2) [OF assms] set_remove1_subset [of e F] by simp

lemma inv_skip:
  assumes i: "search_inv p U F" and pop: "pop_best p F = Some (e, rest)"
    and out: "entry_node e \<notin> set U"
  shows "search_inv p U rest"
proof -
  note sub = rest_subset [OF pop]
  from i have a: "set U \<subseteq> set (all_nodes p)" and b: "Destination \<in> set U"
    by (simp_all add: search_inv_def)
  from i sub have w: "\<forall>x \<in> set rest. route p (trail x) \<and> g_score x = total_km p (trail x)"
    unfolding search_inv_def by blast
  have o: "\<exists>x \<in> set rest. entry_node x = Origin \<and> g_score x \<le> 0" if "Origin \<in> set U"
  proof -
    from i that obtain x where x: "x \<in> set F" "entry_node x = Origin" "g_score x \<le> 0"
      unfolding search_inv_def by blast
    from that out x(2) have "entry_node x \<noteq> entry_node e" by auto
    from kept_after_pop [OF pop x(1) this] x show ?thesis by blast
  qed
  have s: "\<exists>x \<in> set rest. entry_node x = m \<and> g_score x \<le> total_km p Q + distance p (last Q) m"
    if "route p Q" "last Q \<notin> set U" "m \<in> set U" "distance p (last Q) m \<le> budget p (last Q)"
    for Q m
  proof -
    from i that obtain x where x: "x \<in> set F" "entry_node x = m"
      "g_score x \<le> total_km p Q + distance p (last Q) m"
      unfolding search_inv_def by blast
    from that(3) out x(2) have "entry_node x \<noteq> entry_node e" by auto
    from kept_after_pop [OF pop x(1) this] x show ?thesis by blast
  qed
  from a b w o s show ?thesis unfolding search_inv_def by blast
qed

lemma successor_entry:
  "x \<in> set (successors p e U') \<longleftrightarrow>
   (\<exists>m \<in> set U'. distance p (entry_node e) m \<le> budget p (entry_node e)
      \<and> x = \<lparr> entry_node = m, g_score = g_score e + distance p (entry_node e) m,
              parents = entry_node e # parents e \<rparr>)"
  by (auto simp: successors_def)

lemma inv_expand:
  assumes c: "consistent p" and i: "search_inv p U F" and pop: "pop_best p F = Some (e, rest)"
    and inU: "entry_node e \<in> set U" and nd: "entry_node e \<noteq> Destination"
  shows "search_inv p (removeAll (entry_node e) U)
           (rest @ successors p e (removeAll (entry_node e) U))"
proof -
  let ?n = "entry_node e"
  let ?U = "removeAll ?n U"
  let ?F = "rest @ successors p e ?U"
  note sub = rest_subset [OF pop]
  from pop_best_Some(1) [OF pop] have eF: "e \<in> set F" .
  from i eF have re: "route p (trail e)" and ge: "g_score e = total_km p (trail e)"
    by (simp_all add: search_inv_def)
  from i have U: "set U \<subseteq> set (all_nodes p)" and dU: "Destination \<in> set U"
    by (simp_all add: search_inv_def)
  have a: "set ?U \<subseteq> set (all_nodes p)" using U by auto
  have b: "Destination \<in> set ?U" using dU nd by simp
  have w: "route p (trail x) \<and> g_score x = total_km p (trail x)" if "x \<in> set ?F" for x
  proof (cases "x \<in> set rest")
    case True
    with i sub show ?thesis unfolding search_inv_def by blast
  next
    case False
    with that have "x \<in> set (successors p e ?U)" by simp
    then obtain m where m: "m \<in> set ?U" "distance p ?n m \<le> budget p ?n"
      and x: "x = \<lparr> entry_node = m, g_score = g_score e + distance p ?n m, parents = ?n # parents e \<rparr>"
      unfolding successor_entry by blast
    from x have t: "trail x = trail e @ [m]" by (simp add: trail_def)
    from m(1) a have mn: "m \<in> set (all_nodes p)" by blast
    from route_snoc [OF re mn] m(2) have "route p (trail e @ [m])" by (simp add: trail_last)
    moreover have "total_km p (trail e @ [m]) = total_km p (trail e) + distance p ?n m"
      using total_snoc [OF trail_nonempty, of p e m] by (simp add: trail_last)
    ultimately show ?thesis using t x ge by simp
  qed
  have o: "\<exists>x \<in> set ?F. entry_node x = Origin \<and> g_score x \<le> 0" if "Origin \<in> set ?U"
  proof -
    from that have oU: "Origin \<in> set U" and on: "Origin \<noteq> ?n" by auto
    from i oU obtain x where x: "x \<in> set F" "entry_node x = Origin" "g_score x \<le> 0"
      unfolding search_inv_def by blast
    from on x(2) have "entry_node x \<noteq> ?n" by simp
    from kept_after_pop [OF pop x(1) this] x show ?thesis by auto
  qed
  have s: "\<exists>x \<in> set ?F. entry_node x = m \<and> g_score x \<le> total_km p Q + distance p (last Q) m"
    if q: "route p Q" "last Q \<notin> set ?U" "m \<in> set ?U" "distance p (last Q) m \<le> budget p (last Q)"
    for Q m
  proof (cases "last Q = ?n")
    case True
    from popped_is_shortest [OF c i pop inU q(1) True] have "g_score e \<le> total_km p Q" .
    moreover from q(3,4) True
    have "\<lparr> entry_node = m, g_score = g_score e + distance p ?n m, parents = ?n # parents e \<rparr>
            \<in> set (successors p e ?U)"
      unfolding successor_entry by auto
    ultimately have "\<lparr> entry_node = m, g_score = g_score e + distance p ?n m, parents = ?n # parents e \<rparr>
            \<in> set ?F
          \<and> g_score e + distance p ?n m \<le> total_km p Q + distance p (last Q) m"
      using True by simp
    then show ?thesis by (intro bexI [where x = "\<lparr> entry_node = m, g_score = g_score e + distance p ?n m,
        parents = ?n # parents e \<rparr>"]) simp_all
  next
    case False
    with q(2) have "last Q \<notin> set U" by simp
    moreover from q(3) have mU: "m \<in> set U" and mn: "m \<noteq> ?n" by auto
    ultimately obtain x where x: "x \<in> set F" "entry_node x = m"
      "g_score x \<le> total_km p Q + distance p (last Q) m"
      using i q(1,4) unfolding search_inv_def by blast
    from mn x(2) have "entry_node x \<noteq> ?n" by simp
    from kept_after_pop [OF pop x(1) this] x show ?thesis by auto
  qed
  from a b w o s show ?thesis unfolding search_inv_def by blast
qed

lemma route_last: "route p Q \<Longrightarrow> last Q \<in> set (all_nodes p)"
  using last_in_set [of Q] by (auto simp: route_def)

lemma inv_initial: "search_inv p (all_nodes p) [\<lparr> entry_node = Origin, g_score = 0, parents = [] \<rparr>]"
proof -
  have "Origin \<in> set (all_nodes p)" and "Destination \<in> set (all_nodes p)"
    by (simp_all add: all_nodes_def)
  moreover from this(1) have "route p (trail \<lparr> entry_node = Origin, g_score = 0, parents = [] \<rparr>)"
    by (simp add: route_def trail_def)
  moreover have "total_km p (trail \<lparr> entry_node = Origin, g_score = 0, parents = [] \<rparr>) = 0"
    by (simp add: trail_def)
  ultimately show ?thesis
    unfolding search_inv_def using route_last [of p] by auto
qed

lemma search_shortest:
  "consistent p \<Longrightarrow> search_inv p U F \<Longrightarrow> search p U F = Some e \<Longrightarrow>
   entry_node e = Destination \<and> route p (trail e) \<and> g_score e = total_km p (trail e)
   \<and> (\<forall>Q. route p Q \<and> last Q = Destination \<longrightarrow> g_score e \<le> total_km p Q)"
proof (induction p U F rule: search.induct)
  case (1 p unvisited frontier)
  note c = "1.prems"(1) and i = "1.prems"(2) and res = "1.prems"(3)
  show ?case
  proof (cases "pop_best p frontier")
    case None
    with res show ?thesis by (simp add: search.simps [of p unvisited frontier])
  next
    case (Some x)
    obtain b rest where x: "x = (b, rest)" by (cases x)
    with Some have pop: "pop_best p frontier = Some (b, rest)" by simp
    consider (goal) "entry_node b = Destination"
      | (skip) "entry_node b \<noteq> Destination" "entry_node b \<notin> set unvisited"
      | (expand) "entry_node b \<noteq> Destination" "entry_node b \<in> set unvisited"
      by blast
    then show ?thesis
    proof cases
      case goal
      with res pop have eb: "e = b" by (simp add: search.simps [of p unvisited frontier])
      from pop_best_Some(1) [OF pop] i have "route p (trail b)" "g_score b = total_km p (trail b)"
        by (simp_all add: search_inv_def)
      moreover from i goal have "entry_node b \<in> set unvisited" by (simp add: search_inv_def)
      from popped_is_shortest [OF c i pop this]
      have "\<forall>Q. route p Q \<and> last Q = Destination \<longrightarrow> g_score b \<le> total_km p Q"
        using goal by simp
      ultimately show ?thesis using eb goal by simp
    next
      case skip
      with res pop have r: "search p unvisited rest = Some e"
        by (simp add: search.simps [of p unvisited frontier])
      from "1.IH"(1) [OF Some x [symmetric] skip c inv_skip [OF i pop skip(2)] r]
      show ?thesis .
    next
      case expand
      with res pop have r: "search p (removeAll (entry_node b) unvisited)
          (rest @ successors p b (removeAll (entry_node b) unvisited)) = Some e"
        by (simp add: search.simps [of p unvisited frontier])
      from expand(2) have nn: "\<not> entry_node b \<notin> set unvisited" by simp
      from "1.IH"(2) [OF Some x [symmetric] expand(1) nn c inv_expand [OF c i pop expand(2,1)] r]
      show ?thesis .
    qed
  qed
qed


lemma trail_inv_skip:
  assumes "trail_inv U F" and "pop_best p F = Some (e, rest)"
  shows "trail_inv U rest"
  using assms(1) rest_subset [OF assms(2)] unfolding trail_inv_def by blast

lemma trail_inv_expand:
  assumes i: "trail_inv U F" and pop: "pop_best p F = Some (e, rest)"
    and nd: "entry_node e \<noteq> Destination"
  shows "trail_inv (removeAll (entry_node e) U) (rest @ successors p e (removeAll (entry_node e) U))"
proof -
  let ?n = "entry_node e"
  let ?U = "removeAll ?n U"
  note sub = rest_subset [OF pop]
  from pop_best_Some(1) [OF pop] i have ce: "stop_chain e"
    and oe: "Origin \<in> set U \<Longrightarrow> ?n = Origin"
    by (simp_all add: trail_inv_def)
  have no: "Origin \<notin> set ?U" using oe by auto
  have r: "stop_chain x" if "x \<in> set rest" for x
    using that i sub unfolding trail_inv_def by blast
  have s: "stop_chain x" if "x \<in> set (successors p e ?U)" for x
  proof -
    from that obtain m where m: "m \<in> set ?U"
      and x: "x = \<lparr> entry_node = m, g_score = g_score e + distance p ?n m, parents = ?n # parents e \<rparr>"
      unfolding successor_entry by blast
    from m no have mo: "m \<noteq> Origin" by auto
    show ?thesis
    proof (cases "?n = Origin")
      case True
      with ce have "parents e = []" by (simp add: stop_chain_def)
      with True x mo show ?thesis by (simp add: stop_chain_def)
    next
      case False
      with ce obtain cs where cs: "parents e = cs @ [Origin]"
        "\<forall>y \<in> set cs. y \<noteq> Origin \<and> y \<noteq> Destination"
        by (auto simp: stop_chain_def)
      with False nd have "?n # parents e = (?n # cs) @ [Origin]
          \<and> (\<forall>y \<in> set (?n # cs). y \<noteq> Origin \<and> y \<noteq> Destination)"
        by simp
      then have "\<exists>ds. ?n # parents e = ds @ [Origin] \<and> (\<forall>y \<in> set ds. y \<noteq> Origin \<and> y \<noteq> Destination)"
        by blast
      with x mo show ?thesis by (simp add: stop_chain_def)
    qed
  qed
  from no r s show ?thesis unfolding trail_inv_def by auto
qed

lemma search_stop_chain:
  "trail_inv U F \<Longrightarrow> search p U F = Some e \<Longrightarrow> stop_chain e"
proof (induction p U F rule: search.induct)
  case (1 p unvisited frontier)
  note i = "1.prems"(1) and res = "1.prems"(2)
  show ?case
  proof (cases "pop_best p frontier")
    case None
    with res show ?thesis by (simp add: search.simps [of p unvisited frontier])
  next
    case (Some x)
    obtain b rest where x: "x = (b, rest)" by (cases x)
    with Some have pop: "pop_best p frontier = Some (b, rest)" by simp
    consider (goal) "entry_node b = Destination"
      | (skip) "entry_node b \<noteq> Destination" "entry_node b \<notin> set unvisited"
      | (expand) "entry_node b \<noteq> Destination" "entry_node b \<in> set unvisited"
      by blast
    then show ?thesis
    proof cases
      case goal
      with res pop have "e = b" by (simp add: search.simps [of p unvisited frontier])
      with pop_best_Some(1) [OF pop] i show ?thesis by (simp add: trail_inv_def)
    next
      case skip
      with res pop have r: "search p unvisited rest = Some e"
        by (simp add: search.simps [of p unvisited frontier])
      from "1.IH"(1) [OF Some x [symmetric] skip trail_inv_skip [OF i pop] r]
      show ?thesis .
    next
      case expand
      with res pop have r: "search p (removeAll (entry_node b) unvisited)
          (rest @ successors p b (removeAll (entry_node b) unvisited)) = Some e"
        by (simp add: search.simps [of p unvisited frontier])
      from expand(2) have nn: "\<not> entry_node b \<notin> set unvisited" by simp
      from "1.IH"(2) [OF Some x [symmetric] expand(1) nn trail_inv_expand [OF i pop expand(1)] r]
      show ?thesis .
    qed
  qed
qed

lemma trail_inv_initial: "trail_inv U [\<lparr> entry_node = Origin, g_score = 0, parents = [] \<rparr>]"
  by (simp add: trail_inv_def stop_chain_def)

lemma within_budget_route:
  "set others \<subseteq> set (candidates p) \<Longrightarrow> within_budget p (Origin # others @ [Destination]) \<Longrightarrow>
   route p (Origin # others @ [Destination])"
  by (auto simp: route_def all_nodes_def)

text \<open>
  Whatever the heuristic is, a stop sequence that the Stop Selector returns consists of
  candidates and every hop of origin, stops, destination is within budget.
\<close>

lemma entries_inv_skip:
  assumes "entries_inv p U F" and "pop_best p F = Some (e, rest)"
  shows "entries_inv p U rest"
  using assms(1) rest_subset [OF assms(2)] unfolding entries_inv_def by blast

lemma entries_inv_expand:
  assumes i: "entries_inv p U F" and pop: "pop_best p F = Some (e, rest)"
  shows "entries_inv p (removeAll (entry_node e) U)
           (rest @ successors p e (removeAll (entry_node e) U))"
proof -
  let ?n = "entry_node e"
  let ?U = "removeAll ?n U"
  note sub = rest_subset [OF pop]
  from pop_best_Some(1) [OF pop] i have re: "route p (trail e)"
    by (simp add: entries_inv_def)
  from i have a: "set ?U \<subseteq> set (all_nodes p)" by (auto simp: entries_inv_def)
  have r: "route p (trail x)" if "x \<in> set rest" for x
    using that i sub unfolding entries_inv_def by blast
  have s: "route p (trail x)" if "x \<in> set (successors p e ?U)" for x
  proof -
    from that obtain m where m: "m \<in> set ?U" "distance p ?n m \<le> budget p ?n"
      and x: "x = \<lparr> entry_node = m, g_score = g_score e + distance p ?n m, parents = ?n # parents e \<rparr>"
      unfolding successor_entry by blast
    from x have t: "trail x = trail e @ [m]" by (simp add: trail_def)
    from m(1) a have mn: "m \<in> set (all_nodes p)" by blast
    from route_snoc [OF re mn] m(2) have "route p (trail e @ [m])" by (simp add: trail_last)
    with t show ?thesis by simp
  qed
  from a r s show ?thesis unfolding entries_inv_def by auto
qed

lemma search_route:
  "entries_inv p U F \<Longrightarrow> search p U F = Some e \<Longrightarrow>
   entry_node e = Destination \<and> route p (trail e)"
proof (induction p U F rule: search.induct)
  case (1 p unvisited frontier)
  note i = "1.prems"(1) and res = "1.prems"(2)
  show ?case
  proof (cases "pop_best p frontier")
    case None
    with res show ?thesis by (simp add: search.simps [of p unvisited frontier])
  next
    case (Some x)
    obtain b rest where x: "x = (b, rest)" by (cases x)
    with Some have pop: "pop_best p frontier = Some (b, rest)" by simp
    consider (goal) "entry_node b = Destination"
      | (skip) "entry_node b \<noteq> Destination" "entry_node b \<notin> set unvisited"
      | (expand) "entry_node b \<noteq> Destination" "entry_node b \<in> set unvisited"
      by blast
    then show ?thesis
    proof cases
      case goal
      with res pop have "e = b" by (simp add: search.simps [of p unvisited frontier])
      with pop_best_Some(1) [OF pop] i goal show ?thesis by (simp add: entries_inv_def)
    next
      case skip
      with res pop have r: "search p unvisited rest = Some e"
        by (simp add: search.simps [of p unvisited frontier])
      from "1.IH"(1) [OF Some x [symmetric] skip entries_inv_skip [OF i pop] r]
      show ?thesis .
    next
      case expand
      with res pop have r: "search p (removeAll (entry_node b) unvisited)
          (rest @ successors p b (removeAll (entry_node b) unvisited)) = Some e"
        by (simp add: search.simps [of p unvisited frontier])
      from expand(2) have nn: "\<not> entry_node b \<notin> set unvisited" by simp
      from "1.IH"(2) [OF Some x [symmetric] expand(1) nn entries_inv_expand [OF i pop] r]
      show ?thesis .
    qed
  qed
qed

lemma entries_inv_initial:
  "entries_inv p (all_nodes p) [\<lparr> entry_node = Origin, g_score = 0, parents = [] \<rparr>]"
  by (simp add: entries_inv_def route_def trail_def all_nodes_def)

lemma select_stops_route:
  assumes sel: "select_stops p = Some stops"
  shows "set stops \<subseteq> set (candidates p) \<and> within_budget p (Origin # stops @ [Destination])"
proof -
  from sel obtain e where
    s: "search p (all_nodes p) [\<lparr> entry_node = Origin, g_score = 0, parents = [] \<rparr>] = Some e"
    and st: "stops = stops_of e"
    by (auto simp: select_stops_def split: if_splits)
  from search_route [OF entries_inv_initial s]
  have d: "entry_node e = Destination" and r: "route p (trail e)" by simp_all
  from search_stop_chain [OF trail_inv_initial s] d obtain cs where
    cs: "parents e = cs @ [Origin]" "\<forall>x \<in> set cs. x \<noteq> Origin \<and> x \<noteq> Destination"
    by (auto simp: stop_chain_def)
  from cs(2) have fl: "filter (\<lambda>n. n \<noteq> Origin \<and> n \<noteq> Destination) (rev cs) = rev cs"
    by (simp add: filter_id_conv)
  from cs(1) d st fl have stops: "stops = rev cs" by (simp add: stops_of_def)
  from cs(1) d stops have t: "trail e = Origin # stops @ [Destination]"
    by (simp add: trail_def)
  from r t have "set stops \<subseteq> set (all_nodes p)" by (simp add: route_def)
  with cs(2) stops have 1: "set stops \<subseteq> set (candidates p)"
    by (auto simp: all_nodes_def)
  from r t have 2: "within_budget p (Origin # stops @ [Destination])" by (simp add: route_def)
  from 1 2 show ?thesis by simp
qed

text \<open>
  Consistency holds whenever the heuristic is the hop distance to the destination and
  the hop distance obeys the triangle inequality.
\<close>

lemma triangle_consistent:
  assumes "straight_line p = (\<lambda>n. distance p n Destination)"
    and "distance p Destination Destination = 0"
    and "\<And>a b. distance p a Destination \<le> distance p a b + distance p b Destination"
  shows "consistent p"
  using assms by (simp add: consistent_def)

text \<open>
  The model on the specification's scenarios: with a 400 km trip, 150 km of initial range,
  300 km of full range and a candidate at 140 km the stop list is that candidate; with a
  500 km trip, 100 km of initial range and the nearest candidate 150 km away there is no
  feasible chain.
\<close>

lemma scenario_single_stop: "select_stops (line_trip 400 140 150 300) = Some [Candidate 0]"
  by (simp add: select_stops_def line_trip_def line_position_def all_nodes_def candidates_def
      pop_best_def successors_def budget_def before_def f_score_def stops_of_def
      higher_rated_def node_rating_def)

lemma scenario_infeasible: "select_stops (line_trip 500 150 100 300) = None"
  by (simp add: select_stops_def line_trip_def line_position_def all_nodes_def candidates_def
      pop_best_def successors_def budget_def before_def f_score_def stops_of_def
      higher_rated_def node_rating_def)

text \<open>
  C1. When the heuristic is consistent and the Stop Selector returns a stop sequence,
  the stops are candidates, every hop of origin, stops, destination is within the budget
  at its start (the initial range at the origin, the full range at a stop), and the
  total distance of that path is at most the total distance of every other sequence of
  candidates between origin and destination whose hops are within budget.
\<close>

theorem select_stops_shortest:
  assumes c: "consistent p" and sel: "select_stops p = Some stops"
    and cand: "set others \<subseteq> set (candidates p)"
    and feas: "within_budget p (Origin # others @ [Destination])"
  shows "set stops \<subseteq> set (candidates p)
       \<and> within_budget p (Origin # stops @ [Destination])
       \<and> total_km p (Origin # stops @ [Destination]) \<le> total_km p (Origin # others @ [Destination])"
proof -
  from sel obtain e where
    s: "search p (all_nodes p) [\<lparr> entry_node = Origin, g_score = 0, parents = [] \<rparr>] = Some e"
    and st: "stops = stops_of e"
    by (auto simp: select_stops_def split: if_splits)
  from search_shortest [OF c inv_initial s]
  have d: "entry_node e = Destination" and r: "route p (trail e)"
    and gt: "g_score e = total_km p (trail e)"
    and le: "\<And>Q. route p Q \<Longrightarrow> last Q = Destination \<Longrightarrow> g_score e \<le> total_km p Q"
    by blast+
  from search_stop_chain [OF trail_inv_initial s] d obtain cs where
    cs: "parents e = cs @ [Origin]" "\<forall>x \<in> set cs. x \<noteq> Origin \<and> x \<noteq> Destination"
    by (auto simp: stop_chain_def)
  from cs(2) have fl: "filter (\<lambda>n. n \<noteq> Origin \<and> n \<noteq> Destination) (rev cs) = rev cs"
    by (simp add: filter_id_conv)
  from cs(1) d st fl have stops: "stops = rev cs" by (simp add: stops_of_def)
  from cs(1) d stops have t: "trail e = Origin # stops @ [Destination]"
    by (simp add: trail_def)
  from r t have "set stops \<subseteq> set (all_nodes p)" by (simp add: route_def)
  with cs(2) stops have 1: "set stops \<subseteq> set (candidates p)"
    by (auto simp: all_nodes_def)
  from r t have 2: "within_budget p (Origin # stops @ [Destination])" by (simp add: route_def)
  from le [OF within_budget_route [OF cand feas]] gt t
  have 3: "total_km p (Origin # stops @ [Destination]) \<le> total_km p (Origin # others @ [Destination])"
    by simp
  from 1 2 3 show ?thesis by simp
qed

theorem select_stops_shortest_witness:
  "consistent two_candidates
   \<and> select_stops two_candidates = Some [Candidate 0]
   \<and> set [Candidate 1, Candidate 0] \<subseteq> set (candidates two_candidates)
   \<and> within_budget two_candidates (Origin # [Candidate 1, Candidate 0] @ [Destination])
   \<and> within_budget two_candidates (Origin # [Candidate 0] @ [Destination])
   \<and> total_km two_candidates (Origin # [Candidate 0] @ [Destination]) = 400
   \<and> total_km two_candidates (Origin # [Candidate 1, Candidate 0] @ [Destination]) = 410
   \<and> total_km two_candidates (Origin # [Candidate 0] @ [Destination])
       \<le> total_km two_candidates (Origin # [Candidate 1, Candidate 0] @ [Destination])"
proof -
  have a: "consistent two_candidates"
    by (simp add: consistent_def two_candidates_def all_nodes_def candidates_def table_def
        budget_def doubleton_eq_iff)
  have b: "select_stops two_candidates = Some [Candidate 0]"
    by (simp add: select_stops_def two_candidates_def all_nodes_def candidates_def table_def
        doubleton_eq_iff pop_best_def successors_def budget_def before_def f_score_def
        stops_of_def higher_rated_def node_rating_def)
  have c: "set [Candidate 1, Candidate 0] \<subseteq> set (candidates two_candidates)"
    by (simp add: candidates_def two_candidates_def)
  have d: "within_budget two_candidates (Origin # [Candidate 1, Candidate 0] @ [Destination])"
    by (simp add: two_candidates_def table_def budget_def doubleton_eq_iff)
  have t: "total_km two_candidates (Origin # [Candidate 0] @ [Destination]) = 400"
    "total_km two_candidates (Origin # [Candidate 1, Candidate 0] @ [Destination]) = 410"
    by (simp_all add: two_candidates_def table_def doubleton_eq_iff)
  from select_stops_shortest [OF a b c d] a b c d t show ?thesis by simp
qed

section \<open>Properties of the planning entry point\<close>

lemma located_coordinate: "\<forall>xc \<in> set (located found). coordinate (snd xc) = Some (fst xc)"
  by (auto simp: located_def List.map_filter_def)

lemma merge_candidate_subset: "set (merge_candidate km c kept) \<subseteq> insert c (set kept)"
  by (induction kept) auto

lemma foldl_merge_subset:
  "set (foldl (\<lambda>kept c. merge_candidate km c kept) acc cs) \<subseteq> set acc \<union> set cs"
proof (induction cs arbitrary: acc)
  case Nil
  show ?case by simp
next
  case (Cons c cs)
  from Cons [of "merge_candidate km c acc"] merge_candidate_subset [of km c acc]
  show ?case by auto
qed

lemma deduplicate_subset: "set (deduplicate km cs) \<subseteq> set cs"
  using foldl_merge_subset [of km "[]" cs] by (simp add: deduplicate_def)

lemma deduplicate_coordinate:
  "\<forall>xc \<in> set (deduplicate km (located found)). coordinate (snd xc) = Some (fst xc)"
  using deduplicate_subset [of km "located found"] located_coordinate [of found] by blast

lemma planner_graph_candidates:
  "candidates (planner_graph env src dst base initial full cs) = map Candidate [0..<length cs]"
  by (simp add: candidates_def planner_graph_def)

lemma stop_candidates_coordinates:
  assumes "\<forall>xc \<in> set cs. coordinate (snd xc) = Some (fst xc)"
    and "set stops \<subseteq> set (map Candidate [0..<length cs])"
  shows "List.map_filter coordinate (stop_candidates cs stops) = map (node_coord src dst cs) stops
       \<and> length (stop_candidates cs stops) = length stops
       \<and> (\<forall>c \<in> set (stop_candidates cs stops). coordinate c \<noteq> None)"
  using assms(2)
proof (induction stops)
  case Nil
  show ?case by (simp add: stop_candidates_def List.map_filter_simps)
next
  case (Cons n ns)
  from Cons.prems obtain i where n: "n = Candidate i" and i: "i < length cs" by auto
  from i assms(1) have c: "coordinate (snd (cs ! i)) = Some (fst (cs ! i))" by simp
  from Cons.prems have "set ns \<subseteq> set (map Candidate [0..<length cs])" by simp
  from Cons.IH [OF this] n i c show ?case
    by (simp add: stop_candidates_def List.map_filter_simps node_coord_def)
qed

lemma later_legs:
  assumes "set ns \<subseteq> set (map Candidate [0..<length cs])" and "ns \<noteq> []"
    and "within_budget (planner_graph env src dst base initial full cs) (ns @ [Destination])"
  shows "legs_within (hopKm env) full full (map (node_coord src dst cs) ns @ [dst])"
  using assms(2,1,3)
proof (induction ns rule: list_nonempty_induct)
  case (single n)
  from single(1) obtain i where "n = Candidate i" by auto
  with single(2) show ?case
    by (simp add: planner_graph_def budget_def node_coord_def)
next
  case (cons n ns)
  from cons.prems(1) obtain i where n: "n = Candidate i" by auto
  from cons.hyps obtain m ms where ns: "ns = m # ms" by (cases ns) simp_all
  from cons.prems(1) have sub: "set ns \<subseteq> set (map Candidate [0..<length cs])" by simp
  from cons.prems(2) ns
  have hop: "distance (planner_graph env src dst base initial full cs) n m
               \<le> budget (planner_graph env src dst base initial full cs) n"
    and rest: "within_budget (planner_graph env src dst base initial full cs) (ns @ [Destination])"
    by simp_all
  from hop n have "hopKm env (node_coord src dst cs n) (node_coord src dst cs m) \<le> full"
    by (simp add: planner_graph_def budget_def)
  with cons.IH [OF sub rest] ns show ?case by simp
qed

lemma chain_legs:
  assumes sub: "set stops \<subseteq> set (map Candidate [0..<length cs])" and ne: "stops \<noteq> []"
    and wb: "within_budget (planner_graph env src dst base initial full cs)
               (Origin # stops @ [Destination])"
  shows "legs_within (hopKm env) initial full (src # map (node_coord src dst cs) stops @ [dst])"
proof -
  from ne obtain s ss where st: "stops = s # ss" by (cases stops) simp_all
  from sub st obtain i where s: "s = Candidate i" by auto
  from wb st
  have hop: "distance (planner_graph env src dst base initial full cs) Origin s
               \<le> budget (planner_graph env src dst base initial full cs) Origin"
    and rest: "within_budget (planner_graph env src dst base initial full cs)
                 (stops @ [Destination])"
    by simp_all
  from hop s have "hopKm env src (node_coord src dst cs s) \<le> initial"
    by (simp add: planner_graph_def budget_def node_coord_def)
  with later_legs [OF sub ne rest] st show ?thesis by simp
qed

lemma direct_hop_beyond_range:
  assumes "select_stops (planner_graph env src dst base initial full cs) = Some stops"
    and "\<not> distanceKm base \<le> initial"
  shows "stops \<noteq> []"
proof
  assume "stops = []"
  with select_stops_route [OF assms(1)]
  have "within_budget (planner_graph env src dst base initial full cs) [Origin, Destination]"
    by simp
  then have "distanceKm base \<le> initial" by (simp add: planner_graph_def budget_def)
  with assms(2) show False by simp
qed

lemma plan_stops_result:
  assumes "fst (plan_stops env src dst base initial full) = Inr res"
    and far: "\<not> distanceKm base \<le> initial"
  shows "totalDistance res = distanceKm base \<and> estimatedRange res = initial
       \<and> feasibility res \<noteq> DIRECT
       \<and> (feasibility res = INFEASIBLE \<longrightarrow> selectedStops res = [])
       \<and> (feasibility res = REQUIRES_CHARGING \<longrightarrow>
            selectedStops res \<noteq> []
          \<and> (\<forall>c \<in> set (selectedStops res). coordinate c \<noteq> None)
          \<and> legs_within (hopKm env) initial full
               (src # List.map_filter coordinate (selectedStops res) @ [dst]))"
proof -
  from assms(1) obtain found where f: "findCandidates env (waypoints base) (radiusKm env) = Inr found"
    by (cases "findCandidates env (waypoints base) (radiusKm env)") (simp_all add: plan_stops_def)
  let ?cs = "deduplicate (straightKm env) (located found)"
  let ?g = "planner_graph env src dst base initial full ?cs"
  show ?thesis
  proof (cases "select_stops ?g")
    case None
    with assms(1) f have "res = assemble base initial INFEASIBLE [] (length ?cs)"
      by (simp add: plan_stops_def)
    then show ?thesis by (simp add: assemble_def)
  next
    case (Some stops)
    with assms(1) f
    have res: "res = assemble base initial REQUIRES_CHARGING (stop_candidates ?cs stops) (length ?cs)"
      by (simp add: plan_stops_def)
    from select_stops_route [OF Some]
    have sub: "set stops \<subseteq> set (map Candidate [0..<length ?cs])"
      and wb: "within_budget ?g (Origin # stops @ [Destination])"
      by (simp_all add: planner_graph_candidates)
    from direct_hop_beyond_range [OF Some far] have ne: "stops \<noteq> []" .
    note sc = stop_candidates_coordinates [OF deduplicate_coordinate sub, of src dst]
    from sc ne have 1: "stop_candidates ?cs stops \<noteq> []" by auto
    from sc have 2: "\<forall>c \<in> set (stop_candidates ?cs stops). coordinate c \<noteq> None" by blast
    from chain_legs [OF sub ne wb] sc
    have 3: "legs_within (hopKm env) initial full
               (src # List.map_filter coordinate (stop_candidates ?cs stops) @ [dst])"
      by simp
    from res 1 2 3 show ?thesis by (simp add: assemble_def)
  qed
qed

text \<open>
  The planning entry point on the specification's scenarios 1 to 3: a trip of 150 km
  with 240 km of range is direct; a trip of 400 km with 150 km of initial range, 300 km
  of full range and a candidate at 140 km stops at that candidate; a trip of 500 km with
  100 km of initial range and the nearest candidate 150 km away has no feasible chain.
\<close>

lemma scenario_direct:
  "plan (line_collaborators 150 []) (line_request 150 1 80)
   = (Inr \<lparr> totalDistance = 150, estimatedRange = 240, feasibility = DIRECT,
            selectedStops = [], candidateCount = 0 \<rparr>,
      [DirectionsCall (0, 0) (0, 150)])"
  by (simp add: plan_def line_collaborators_def line_request_def estimateRange_def
      spec_model_300_def spec_model_200_def classify_def assemble_def)

lemma scenario_one_stop:
  "plan (line_collaborators 400 [140]) (line_request 400 1 50)
   = (Inr \<lparr> totalDistance = 400, estimatedRange = 150, feasibility = REQUIRES_CHARGING,
            selectedStops = [candidate_at 140], candidateCount = 1 \<rparr>,
      [DirectionsCall (0, 0) (0, 400), NearbyCall [(0, 0), (0, 400)] 5])"
  by (simp add: plan_def plan_stops_def line_collaborators_def line_request_def estimateRange_def
      spec_model_300_def spec_model_200_def classify_def assemble_def located_def
      List.map_filter_simps deduplicate_def candidate_at_def planner_graph_def node_coord_def
      stop_candidates_def select_stops_def all_nodes_def candidates_def pop_best_def
      successors_def budget_def before_def f_score_def stops_of_def higher_rated_def
      node_rating_def replaces_def)

lemma scenario_no_chain:
  "plan (line_collaborators 500 [150]) (line_request 500 2 50)
   = (Inr \<lparr> totalDistance = 500, estimatedRange = 100, feasibility = INFEASIBLE,
            selectedStops = [], candidateCount = 1 \<rparr>,
      [DirectionsCall (0, 0) (0, 500), NearbyCall [(0, 0), (0, 500)] 5])"
  by (simp add: plan_def plan_stops_def line_collaborators_def line_request_def estimateRange_def
      spec_model_300_def spec_model_200_def classify_def assemble_def located_def
      List.map_filter_simps deduplicate_def candidate_at_def planner_graph_def node_coord_def
      stop_candidates_def select_stops_def all_nodes_def candidates_def pop_best_def
      successors_def budget_def before_def f_score_def stops_of_def higher_rated_def
      node_rating_def replaces_def)

text \<open>
  C3. Every planning result that the planning entry point returns satisfies the
  invariant: the verdict is \<open>DIRECT\<close> exactly when the total distance is at most the
  estimated range, and then the stop sequence is empty; when the verdict is
  \<open>REQUIRES_CHARGING\<close> the stop sequence is not empty, every stop has a coordinate, the
  hop from the origin to the first stop is at most the estimated range, and every later
  hop, up to the destination, is at most the range at full charge; when the verdict is
  \<open>INFEASIBLE\<close> the stop sequence is empty.
\<close>

theorem planning_result_invariant:
  assumes "fst (plan env req) = Inr res"
  shows "estimateRange (find (\<lambda>m. modelId m = evModelId req) (catalog env)) (batteryPct req)
           = Inr (estimatedRange res)
       \<and> (feasibility res = DIRECT \<longleftrightarrow> totalDistance res \<le> estimatedRange res)
       \<and> (feasibility res = DIRECT \<longrightarrow> selectedStops res = [])
       \<and> (feasibility res = INFEASIBLE \<longrightarrow> selectedStops res = [])
       \<and> (feasibility res = REQUIRES_CHARGING \<longrightarrow>
            selectedStops res \<noteq> []
          \<and> (\<forall>c \<in> set (selectedStops res). coordinate c \<noteq> None)
          \<and> (\<exists>src dst full.
                origin req = Some src \<and> destination req = Some dst
              \<and> estimateRange (find (\<lambda>m. modelId m = evModelId req) (catalog env)) 100 = Inr full
              \<and> legs_within (hopKm env) (estimatedRange res) full
                   (src # List.map_filter coordinate (selectedStops res) @ [dst])))"
proof -
  let ?model = "find (\<lambda>m. modelId m = evModelId req) (catalog env)"
  from assms obtain initial where i: "estimateRange ?model (batteryPct req) = Inr initial"
    by (cases "estimateRange ?model (batteryPct req)") (simp_all add: plan_def)
  from assms i obtain full where f: "estimateRange ?model 100 = Inr full"
    by (cases "estimateRange ?model 100") (simp_all add: plan_def)
  from assms i f obtain src where s: "origin req = Some src"
    by (cases "origin req") (simp_all add: plan_def)
  from assms i f s obtain dst where d: "destination req = Some dst"
    by (cases "destination req") (simp_all add: plan_def)
  from assms i f s d obtain base where b: "directions env src dst = Inr base"
    by (cases "directions env src dst") (simp_all add: plan_def)
  show ?thesis
  proof (cases "distanceKm base \<le> initial")
    case True
    with assms i f s d b have "res = assemble base initial DIRECT [] 0"
      by (simp add: plan_def classify_def)
    with True i show ?thesis by (simp add: assemble_def)
  next
    case False
    with assms i f s d b have "fst (plan_stops env src dst base initial full) = Inr res"
      by (simp add: plan_def classify_def)
    from plan_stops_result [OF this False] i f s d False show ?thesis by auto
  qed
qed

theorem planning_result_invariant_witness:
  "fst (plan (line_collaborators 150 []) (line_request 150 1 80))
     = Inr \<lparr> totalDistance = 150, estimatedRange = 240, feasibility = DIRECT,
              selectedStops = [], candidateCount = 0 \<rparr>
   \<and> (150 :: rat) \<le> 240
   \<and> fst (plan (line_collaborators 400 [140]) (line_request 400 1 50))
     = Inr \<lparr> totalDistance = 400, estimatedRange = 150, feasibility = REQUIRES_CHARGING,
              selectedStops = [candidate_at 140], candidateCount = 1 \<rparr>
   \<and> \<not> (400 :: rat) \<le> 150
   \<and> coordinate (candidate_at 140) = Some (0, 140)
   \<and> legs_within (hopKm (line_collaborators 400 [140])) 150 300 [(0, 0), (0, 140), (0, 400)]
   \<and> fst (plan (line_collaborators 500 [150]) (line_request 500 2 50))
     = Inr \<lparr> totalDistance = 500, estimatedRange = 100, feasibility = INFEASIBLE,
              selectedStops = [], candidateCount = 1 \<rparr>"
proof -
  let ?r1 = "\<lparr> totalDistance = 150, estimatedRange = 240, feasibility = DIRECT,
               selectedStops = [], candidateCount = 0 \<rparr>"
  let ?r2 = "\<lparr> totalDistance = 400, estimatedRange = 150, feasibility = REQUIRES_CHARGING,
               selectedStops = [candidate_at 140], candidateCount = 1 \<rparr>"
  let ?r3 = "\<lparr> totalDistance = 500, estimatedRange = 100, feasibility = INFEASIBLE,
               selectedStops = [], candidateCount = 1 \<rparr>"
  have a: "fst (plan (line_collaborators 150 []) (line_request 150 1 80)) = Inr ?r1"
    by (simp add: scenario_direct)
  have b: "fst (plan (line_collaborators 400 [140]) (line_request 400 1 50)) = Inr ?r2"
    by (simp add: scenario_one_stop)
  have c: "fst (plan (line_collaborators 500 [150]) (line_request 500 2 50)) = Inr ?r3"
    by (simp add: scenario_no_chain)
  have full: "estimateRange (find (\<lambda>m. modelId m = evModelId (line_request 400 1 50))
                 (catalog (line_collaborators 400 [140]))) 100 = Inr 300"
    by (simp add: line_collaborators_def line_request_def estimateRange_def spec_model_300_def)
  have od: "origin (line_request 400 1 50) = Some (0, 0)"
    "destination (line_request 400 1 50) = Some (0, 400)"
    by (simp_all add: line_request_def)
  have co: "coordinate (candidate_at 140) = Some (0, 140)" by (simp add: candidate_at_def)
  from planning_result_invariant [OF b] full od co
  have l: "legs_within (hopKm (line_collaborators 400 [140])) 150 300 [(0, 0), (0, 140), (0, 400)]"
    by (simp add: List.map_filter_simps)
  from planning_result_invariant [OF a] planning_result_invariant [OF c] a b c co l
  show ?thesis by simp
qed

text \<open>
  C5. A planning request whose battery percent lies outside 0 to 100 is rejected with
  \<open>InvalidInput\<close> before anything else happens: no external call is made, whatever the
  collaborators are. On the page, the battery control reports a value from 10 to 100
  whatever is asked of it, so every prediction call that the page can issue carries a
  battery percent from 10 to 100, which is within 0 to 100.
\<close>

theorem invalid_battery_rejected:
  "(batteryPct req < 0 \<or> 100 < batteryPct req \<longrightarrow> plan env req = (Inl InvalidInput, []))
   \<and> 10 \<le> battery_control asked \<and> battery_control asked \<le> 100
   \<and> (reachable s \<longrightarrow>
        (\<forall>f t i b. snd (handleGetRoute_start s) = Some (GetPrediction f t i b)
           \<longrightarrow> b = batteryPercent s \<and> 10 \<le> b \<and> b \<le> 100))"
proof -
  have 1: "plan env req = (Inl InvalidInput, [])" if "batteryPct req < 0 \<or> 100 < batteryPct req"
  proof -
    from that
    have "estimateRange (find (\<lambda>m. modelId m = evModelId req) (catalog env)) (batteryPct req)
            = Inl InvalidInput"
      by (auto simp: estimateRange_def split: option.splits)
    then show ?thesis by (simp add: plan_def)
  qed
  have 2: "10 \<le> battery_control asked \<and> battery_control asked \<le> 100"
    by (simp add: battery_control_def)
  have 3: "b = batteryPercent s \<and> 10 \<le> b \<and> b \<le> 100"
    if "reachable s" and "snd (handleGetRoute_start s) = Some (GetPrediction f t i b)" for f t i b
    using reachable_battery [OF that(1)] that(2)
    by (auto simp: handleGetRoute_start_def split: if_splits option.splits)
  from 1 2 3 show ?thesis by blast
qed

theorem invalid_battery_rejected_witness:
  "batteryPct (line_request 400 1 120) = 120
   \<and> (100 :: int) < 120
   \<and> plan (line_collaborators 400 [140]) (line_request 400 1 120) = (Inl InvalidInput, [])
   \<and> battery_control 120 = 100
   \<and> reachable ready_to_ask
   \<and> snd (handleGetRoute_start ready_to_ask) = Some (GetPrediction ''A'' ''B'' 1 55)
   \<and> batteryPercent ready_to_ask = 55"
proof -
  have a: "batteryPct (line_request 400 1 120) = 120" by (simp add: line_request_def)
  have c: "battery_control 120 = 100" by (simp add: battery_control_def)
  have s: "snd (handleGetRoute_start ready_to_ask) = Some (GetPrediction ''A'' ''B'' 1 55)"
    by (simp add: handleGetRoute_start_def ready_to_ask_def initial_state_def model_300_def)
  have p: "batteryPercent ready_to_ask = 55" by (simp add: ready_to_ask_def)
  from invalid_battery_rejected
         [of "line_request 400 1 120" "line_collaborators 400 [140]" 120 ready_to_ask]
       a c s p ready_to_ask_reachable
  show ?thesis by simp
qed

end
